theory Spec2Isabelle
  imports Main "HOL-Library.Char_ord" "HOL-Library.List_Lexorder"
begin

section \<open>RaktSetu: the blood-unit traceability ledger\<close>

text \<open>
  A shallow embedding of \<^verbatim>\<open>models/blockchain_traceability.py\<close>: the classes
  \<^verbatim>\<open>Block\<close> and \<^verbatim>\<open>BloodUnitBlockchain\<close>.

  Conventions of the embedding.
  \<^item> Python values that end up inside a block (\<^verbatim>\<open>Dict\<close> payloads) are JSON values;
    a \<^verbatim>\<open>Dict\<close> is an association list with string keys, in insertion order (a Python
    dict has each key once; a lookup takes the first entry of a key).
  \<^item> A \<^verbatim>\<open>float\<close> is carried as the text \<^verbatim>\<open>json.dumps\<close> prints for it.
  \<^item> Characters are code points below 256.
  \<^item> \<^verbatim>\<open>hashlib.sha256(s.encode()).hexdigest()\<close> is a parameter \<open>H\<close> of every
    function that hashes; nothing is assumed about it.
  \<^item> \<^verbatim>\<open>datetime.now().isoformat()\<close> and \<^verbatim>\<open>uuid.uuid4().hex\<close> are inputs of the
    operation that reads them.
  \<^item> An operation that may loop forever returns an \<open>option\<close> (\<open>None\<close>: it never
    returns); an operation that may raise returns \<open>error + result\<close>.
\<close>

subsection \<open>JSON values and \<^verbatim>\<open>json.dumps(..., sort_keys=True)\<close>\<close>

datatype json =
    JNull
  | JBool bool
  | JInt int
  | JFloat string
  | JStr string
  | JList "json list"
  | JObj "(string \<times> json) list"

type_synonym dict = "(string \<times> json) list"

type_synonym digest = "string \<Rightarrow> string"

datatype error = IndexError | KeyError | TypeError | AttributeError

definition hex_digit :: "nat \<Rightarrow> char" where
  "hex_digit n = ''0123456789abcdef'' ! (n mod 16)"

text \<open>The encoder's \<^verbatim>\<open>ensure_ascii\<close> escaping of one character.\<close>

definition py_encode_char :: "char \<Rightarrow> string" where
  "py_encode_char c =
     (let n = (of_char c :: nat) in
      if c = CHR 0x22 then [CHR 0x5C, CHR 0x22]
      else if c = CHR 0x5C then [CHR 0x5C, CHR 0x5C]
      else if c = CHR 0x0A then [CHR 0x5C, CHR ''n'']
      else if c = CHR 0x0D then [CHR 0x5C, CHR ''r'']
      else if c = CHR 0x09 then [CHR 0x5C, CHR ''t'']
      else if c = CHR 0x08 then [CHR 0x5C, CHR ''b'']
      else if c = CHR 0x0C then [CHR 0x5C, CHR ''f'']
      else if 32 \<le> n \<and> n \<le> 126 then [c]
      else [CHR 0x5C, CHR ''u'', CHR ''0'', CHR ''0'', hex_digit (n div 16), hex_digit n])"

definition py_encode_basestring_ascii :: "string \<Rightarrow> string" where
  "py_encode_basestring_ascii s = [CHR 0x22] @ concat (map py_encode_char s) @ [CHR 0x22]"

fun nat_to_dec :: "nat \<Rightarrow> string" where
  "nat_to_dec n =
     (if n < 10 then [hex_digit n] else nat_to_dec (n div 10) @ [hex_digit (n mod 10)])"

declare nat_to_dec.simps [simp del]

definition int_str :: "int \<Rightarrow> string" where
  "int_str i = (if i < 0 then CHR ''-'' # nat_to_dec (nat (- i)) else nat_to_dec (nat i))"

fun join :: "string \<Rightarrow> string list \<Rightarrow> string" where
  "join sep [] = []"
| "join sep [x] = x"
| "join sep (x # y # ys) = x @ sep @ join sep (y # ys)"

text \<open>
  \<^verbatim>\<open>json.dumps(v, sort_keys=True)\<close> with the default separators. The items of an
  object are rendered in place and then sorted by key (a stable sort on the keys alone:
  the keys of a Python dict are distinct, so the encoder's \<^verbatim>\<open>sorted(d.items())\<close>
  never compares two values).
\<close>

fun dumps :: "json \<Rightarrow> string"
  and dumps_list :: "json list \<Rightarrow> string list"
  and dumps_items :: "(string \<times> json) list \<Rightarrow> (string \<times> string) list" where
  "dumps JNull = ''null''"
| "dumps (JBool b) = (if b then ''true'' else ''false'')"
| "dumps (JInt i) = int_str i"
| "dumps (JFloat r) = r"
| "dumps (JStr s) = py_encode_basestring_ascii s"
| "dumps (JList xs) = ''['' @ join '', '' (dumps_list xs) @ '']''"
| "dumps (JObj kvs) =
     ''{'' @ join '', '' (map (\<lambda>(k, v). py_encode_basestring_ascii k @ '': '' @ v)
                              (sort_key fst (dumps_items kvs))) @ ''}''"
| "dumps_list [] = []"
| "dumps_list (x # xs) = dumps x # dumps_list xs"
| "dumps_items [] = []"
| "dumps_items ((k, v) # kvs) = (k, dumps v) # dumps_items kvs"

subsection \<open>Python helpers on values\<close>

text \<open>\<^verbatim>\<open>s[:k]\<close> and \<^verbatim>\<open>s * k\<close> for a Python int \<open>k\<close>.\<close>

definition py_slice_to :: "int \<Rightarrow> string \<Rightarrow> string" where
  "py_slice_to k s = (if 0 \<le> k then take (nat k) s else take (length s - nat (- k)) s)"

definition py_repeat :: "string \<Rightarrow> int \<Rightarrow> string" where
  "py_repeat s k = concat (replicate (nat k) s)"

text \<open>Truth value of a JSON value, as \<^verbatim>\<open>if v\<close> tests it.\<close>

fun py_truthy :: "json \<Rightarrow> bool" where
  "py_truthy JNull = False"
| "py_truthy (JBool b) = b"
| "py_truthy (JInt i) = (i \<noteq> 0)"
| "py_truthy (JFloat r) = (r \<noteq> ''0.0'' \<and> r \<noteq> ''-0.0'')"
| "py_truthy (JStr s) = (s \<noteq> [])"
| "py_truthy (JList xs) = (xs \<noteq> [])"
| "py_truthy (JObj kvs) = (kvs \<noteq> [])"

text \<open>\<^verbatim>\<open>d.get(k, default)\<close> on a dict.\<close>

definition dict_get :: "dict \<Rightarrow> string \<Rightarrow> json \<Rightarrow> json" where
  "dict_get d k dflt = (case map_of d k of None \<Rightarrow> dflt | Some v \<Rightarrow> v)"

text \<open>
  \<^verbatim>\<open>v.get(k)\<close> on any value: only a dict has \<^verbatim>\<open>get\<close>; a missing key gives
  \<^verbatim>\<open>None\<close>, which is also what a stored \<^verbatim>\<open>None\<close> gives.
\<close>

fun py_get :: "json \<Rightarrow> string \<Rightarrow> error + json" where
  "py_get (JObj kvs) k = Inr (dict_get kvs k JNull)"
| "py_get _ k = Inl AttributeError"

text \<open>\<^verbatim>\<open>v[k]\<close> with a string key.\<close>

fun py_getitem :: "json \<Rightarrow> string \<Rightarrow> error + json" where
  "py_getitem (JObj kvs) k = (case map_of kvs k of None \<Rightarrow> Inl KeyError | Some v \<Rightarrow> Inr v)"
| "py_getitem _ k = Inl TypeError"

text \<open>
  The values a \<^verbatim>\<open>for x in v\<close> loop visits: the elements of a list, the keys of a
  dict, the characters of a string; anything else is not iterable.
\<close>

fun py_iter :: "json \<Rightarrow> error + json list" where
  "py_iter (JList xs) = Inr xs"
| "py_iter (JObj kvs) = Inr (map (\<lambda>(k, v). JStr k) kvs)"
| "py_iter (JStr s) = Inr (map (\<lambda>c. JStr [c]) s)"
| "py_iter _ = Inl TypeError"

text \<open>A \<^verbatim>\<open>for\<close> loop over a list whose body updates a state or raises.\<close>

fun for_each :: "('a \<Rightarrow> 's \<Rightarrow> error + 's) \<Rightarrow> 'a list \<Rightarrow> 's \<Rightarrow> error + 's" where
  "for_each body [] s = Inr s"
| "for_each body (x # xs) s =
     (case body x s of Inl e \<Rightarrow> Inl e | Inr s' \<Rightarrow> for_each body xs s')"

text \<open>
  \<^verbatim>\<open>units.add(x)\<close> on a \<^verbatim>\<open>set\<close>, kept as a duplicate-free list: lists and dicts
  are unhashable. Membership is structural equality, which is Python's \<^verbatim>\<open>==\<close> on
  strings and \<^verbatim>\<open>None\<close>; numbers that Python identifies (\<^verbatim>\<open>1\<close>, \<^verbatim>\<open>True\<close>,
  \<^verbatim>\<open>1.0\<close>) are kept apart here, so what is proved of the set is proved for string
  unit ids.
\<close>

fun py_set_add :: "json list \<Rightarrow> json \<Rightarrow> error + json list" where
  "py_set_add xs (JList v) = Inl TypeError"
| "py_set_add xs (JObj v) = Inl TypeError"
| "py_set_add xs x = Inr (if x \<in> set xs then xs else xs @ [x])"

text \<open>\<^verbatim>\<open>str.upper\<close> on one character; only the ASCII letters have another case here.\<close>

definition py_upper_char :: "char \<Rightarrow> char" where
  "py_upper_char c =
     (case map_of (zip ''abcdefghijklmnopqrstuvwxyz'' ''ABCDEFGHIJKLMNOPQRSTUVWXYZ'') c of
        None \<Rightarrow> c
      | Some u \<Rightarrow> u)"

subsection \<open>\<^verbatim>\<open>class Block\<close>\<close>

record block =
  index :: int
  timestamp :: string
  data :: dict
  previous_hash :: string
  nonce :: int
  hash :: string

definition calculate_hash :: "digest \<Rightarrow> block \<Rightarrow> string" where
  "calculate_hash H b =
     H (dumps (JObj [(''index'', JInt (index b)),
                     (''timestamp'', JStr (timestamp b)),
                     (''data'', JObj (data b)),
                     (''previous_hash'', JStr (previous_hash b)),
                     (''nonce'', JInt (nonce b))]))"

text \<open>\<^verbatim>\<open>Block.__init__\<close>: the nonce starts at 0 and the hash is computed at once.\<close>

definition Block_init :: "digest \<Rightarrow> int \<Rightarrow> string \<Rightarrow> dict \<Rightarrow> string \<Rightarrow> block" where
  "Block_init H i ts d ph =
     (let b = \<lparr>index = i, timestamp = ts, data = d, previous_hash = ph, nonce = 0, hash = []\<rparr>
      in b\<lparr>hash := calculate_hash H b\<rparr>)"

text \<open>
  \<^verbatim>\<open>mine_block\<close>: the proof-of-work loop has no bound, so the model is partial;
  \<open>None\<close> is a search that never ends.
\<close>

partial_function (option) mine_block :: "digest \<Rightarrow> int \<Rightarrow> block \<Rightarrow> block option" where
  "mine_block H d b =
     (if py_slice_to d (hash b) \<noteq> py_repeat ''0'' d
      then mine_block H d
             (let b1 = b\<lparr>nonce := nonce b + 1\<rparr> in b1\<lparr>hash := calculate_hash H b1\<rparr>)
      else Some b)"

declare mine_block.simps [code]

definition to_dict :: "block \<Rightarrow> dict" where
  "to_dict b =
     [(''index'', JInt (index b)),
      (''timestamp'', JStr (timestamp b)),
      (''data'', JObj (data b)),
      (''previous_hash'', JStr (previous_hash b)),
      (''hash'', JStr (hash b)),
      (''nonce'', JInt (nonce b))]"

subsection \<open>\<^verbatim>\<open>class BloodUnitBlockchain\<close>\<close>

record blockchain =
  chain :: "block list"
  pending_transactions :: "dict list"
  difficulty :: int

definition genesis_data :: dict where
  "genesis_data =
     [(''type'', JStr ''genesis''), (''message'', JStr ''BloodFlow AI Blockchain Initialized'')]"

definition create_genesis_block :: "digest \<Rightarrow> string \<Rightarrow> blockchain \<Rightarrow> blockchain option" where
  "create_genesis_block H now L =
     (case mine_block H (difficulty L) (Block_init H 0 now genesis_data ''0'') of
        None \<Rightarrow> None
      | Some genesis_block \<Rightarrow> Some (L\<lparr>chain := chain L @ [genesis_block]\<rparr>))"

text \<open>\<^verbatim>\<open>BloodUnitBlockchain.__init__\<close>.\<close>

definition BloodUnitBlockchain_init :: "digest \<Rightarrow> string \<Rightarrow> blockchain option" where
  "BloodUnitBlockchain_init H now =
     create_genesis_block H now \<lparr>chain = [], pending_transactions = [], difficulty = 2\<rparr>"

text \<open>\<^verbatim>\<open>self.chain[-1]\<close> raises on an empty chain.\<close>

definition get_latest_block :: "blockchain \<Rightarrow> error + block" where
  "get_latest_block L = (if chain L = [] then Inl IndexError else Inr (last (chain L)))"

definition add_transaction :: "blockchain \<Rightarrow> dict \<Rightarrow> blockchain" where
  "add_transaction L t = L\<lparr>pending_transactions := pending_transactions L @ [t]\<rparr>"

text \<open>
  \<^verbatim>\<open>create_blood_unit\<close>: \<open>uuid_hex\<close> is \<^verbatim>\<open>uuid.uuid4().hex\<close> (lower-case hex
  digits). Returns the unit id and the ledger.
\<close>

definition create_blood_unit ::
  "string \<Rightarrow> string \<Rightarrow> string \<Rightarrow> string \<Rightarrow> string \<Rightarrow> string \<Rightarrow> blockchain
     \<Rightarrow> string \<times> blockchain" where
  "create_blood_unit uuid_hex now donor_id blood_type collection_date location L =
     (let unit_id = ''UNIT-'' @ map py_upper_char (take 12 uuid_hex);
          transaction =
            [(''type'', JStr ''COLLECTION''),
             (''unit_id'', JStr unit_id),
             (''blood_type'', JStr blood_type),
             (''donor_id'', JStr donor_id),
             (''collection_date'', JStr collection_date),
             (''location'', JStr location),
             (''timestamp'', JStr now),
             (''status'', JStr ''collected'')]
      in (unit_id, add_transaction L transaction))"

text \<open>
  \<^verbatim>\<open>mine_pending_transactions\<close>: the result is the ledger and the returned value
  (\<open>None\<close> for Python's \<^verbatim>\<open>None\<close>, else the new block).
\<close>

definition mine_pending_transactions ::
  "digest \<Rightarrow> string \<Rightarrow> blockchain \<Rightarrow> (error + blockchain \<times> block option) option" where
  "mine_pending_transactions H now L =
     (if pending_transactions L = [] then Some (Inr (L, None))
      else
        (case get_latest_block L of
           Inl e \<Rightarrow> Some (Inl e)
         | Inr latest \<Rightarrow>
             (case mine_block H (difficulty L)
                     (Block_init H (int (length (chain L))) now
                        [(''transactions'', JList (map JObj (pending_transactions L)))]
                        (hash latest)) of
                None \<Rightarrow> None
              | Some new_block \<Rightarrow>
                  Some (Inr (L\<lparr>chain := chain L @ [new_block], pending_transactions := []\<rparr>,
                             Some new_block)))))"

text \<open>The tail shared by the four \<^verbatim>\<open>add_*_record\<close> methods.\<close>

definition add_and_mine ::
  "digest \<Rightarrow> string \<Rightarrow> dict \<Rightarrow> blockchain \<Rightarrow> (error + blockchain) option" where
  "add_and_mine H now_block transaction L =
     (case mine_pending_transactions H now_block (add_transaction L transaction) of
        None \<Rightarrow> None
      | Some (Inl e) \<Rightarrow> Some (Inl e)
      | Some (Inr (L', r)) \<Rightarrow> Some (Inr L'))"

definition testing_transaction :: "string \<Rightarrow> string \<Rightarrow> dict \<Rightarrow> dict" where
  "testing_transaction now unit_id test_results =
     [(''type'', JStr ''TESTING''),
      (''unit_id'', JStr unit_id),
      (''test_results'', JObj test_results),
      (''tested_by'', dict_get test_results ''technician_id'' (JStr ''LAB-001'')),
      (''timestamp'', JStr now),
      (''status'', JStr (if py_truthy (dict_get test_results ''passed'' (JBool True))
                         then ''tested'' else ''rejected''))]"

definition add_testing_record ::
  "digest \<Rightarrow> string \<Rightarrow> string \<Rightarrow> string \<Rightarrow> dict \<Rightarrow> blockchain \<Rightarrow> (error + blockchain) option" where
  "add_testing_record H now now_block unit_id test_results L =
     add_and_mine H now_block (testing_transaction now unit_id test_results) L"

definition add_storage_record ::
  "digest \<Rightarrow> string \<Rightarrow> string \<Rightarrow> string \<Rightarrow> string \<Rightarrow> string \<Rightarrow> string \<Rightarrow> blockchain
     \<Rightarrow> (error + blockchain) option" where
  "add_storage_record H now now_block unit_id storage_location temperature expiry_date L =
     add_and_mine H now_block
       [(''type'', JStr ''STORAGE''),
        (''unit_id'', JStr unit_id),
        (''storage_location'', JStr storage_location),
        (''temperature'', JFloat temperature),
        (''expiry_date'', JStr expiry_date),
        (''timestamp'', JStr now),
        (''status'', JStr ''stored'')] L"

definition add_transfer_record ::
  "digest \<Rightarrow> string \<Rightarrow> string \<Rightarrow> string \<Rightarrow> string \<Rightarrow> string \<Rightarrow> string \<Rightarrow> blockchain
     \<Rightarrow> (error + blockchain) option" where
  "add_transfer_record H now now_block unit_id from_location to_location transported_by L =
     add_and_mine H now_block
       [(''type'', JStr ''TRANSFER''),
        (''unit_id'', JStr unit_id),
        (''from_location'', JStr from_location),
        (''to_location'', JStr to_location),
        (''transported_by'', JStr transported_by),
        (''timestamp'', JStr now),
        (''status'', JStr ''in_transit'')] L"

definition add_transfusion_record ::
  "digest \<Rightarrow> string \<Rightarrow> string \<Rightarrow> string \<Rightarrow> string \<Rightarrow> string \<Rightarrow> string \<Rightarrow> blockchain
     \<Rightarrow> (error + blockchain) option" where
  "add_transfusion_record H now now_block unit_id hospital patient_id doctor_id L =
     add_and_mine H now_block
       [(''type'', JStr ''TRANSFUSION''),
        (''unit_id'', JStr unit_id),
        (''hospital'', JStr hospital),
        (''patient_id_hash'', JStr (take 16 (H patient_id))),
        (''doctor_id'', JStr doctor_id),
        (''timestamp'', JStr now),
        (''status'', JStr ''transfused'')] L"


text \<open>
  \<^verbatim>\<open>is_chain_valid\<close>: the loop over \<^verbatim>\<open>range(1, len(self.chain))\<close>, leaving at the
  first failed check.
\<close>

fun is_chain_valid_loop :: "digest \<Rightarrow> block list \<Rightarrow> nat list \<Rightarrow> bool" where
  "is_chain_valid_loop H c [] = True"
| "is_chain_valid_loop H c (i # rest) =
     (let current_block = c ! i; previous_block = c ! (i - 1) in
      if hash current_block \<noteq> calculate_hash H current_block then False
      else if previous_hash current_block \<noteq> hash previous_block then False
      else is_chain_valid_loop H c rest)"

definition is_chain_valid :: "digest \<Rightarrow> blockchain \<Rightarrow> bool" where
  "is_chain_valid H L = is_chain_valid_loop H (chain L) [1..<length (chain L)]"

text \<open>
  What the scans visit in one block:
  \<^verbatim>\<open>if "transactions" in block.data: for transaction in block.data["transactions"]\<close>.
\<close>

definition block_transactions :: "block \<Rightarrow> error + json list" where
  "block_transactions b =
     (case map_of (data b) ''transactions'' of None \<Rightarrow> Inr [] | Some v \<Rightarrow> py_iter v)"

definition bind_err :: "error + 'a \<Rightarrow> ('a \<Rightarrow> error + 'b) \<Rightarrow> error + 'b" where
  "bind_err r f = (case r of Inl e \<Rightarrow> Inl e | Inr x \<Rightarrow> f x)"

record history_entry =
  block_index :: int
  block_hash :: string
  transaction :: json

definition get_unit_history :: "blockchain \<Rightarrow> string \<Rightarrow> error + history_entry list" where
  "get_unit_history L unit_id =
     for_each
       (\<lambda>block history.
          bind_err (block_transactions block)
            (\<lambda>ts. for_each
               (\<lambda>t history.
                  bind_err (py_get t ''unit_id'')
                    (\<lambda>v. Inr (if v = JStr unit_id
                               then history @ [\<lparr>block_index = index block,
                                                 block_hash = hash block,
                                                 transaction = t\<rparr>]
                               else history)))
               ts history))
       (chain L) []"

definition verify_unit_authenticity :: "digest \<Rightarrow> blockchain \<Rightarrow> string \<Rightarrow> error + dict" where
  "verify_unit_authenticity H L unit_id =
     bind_err (get_unit_history L unit_id)
       (\<lambda>history.
          if history = [] then
            Inr [(''verified'', JBool False),
                 (''message'', JStr ''Unit ID not found in blockchain''),
                 (''unit_id'', JStr unit_id)]
          else
            (let is_valid = is_chain_valid H L in
             bind_err (if history \<noteq> [] then py_getitem (transaction (last history)) ''status''
                       else Inr (JStr ''unknown''))
               (\<lambda>current_status.
                  Inr [(''verified'', JBool is_valid),
                       (''message'', JStr (if is_valid then ''Unit verified and authentic''
                                           else ''Blockchain compromised!'')),
                       (''unit_id'', JStr unit_id),
                       (''total_records'', JInt (int (length history))),
                       (''current_status'', current_status),
                       (''blockchain_valid'', JBool is_valid)])))"

definition export_chain :: "blockchain \<Rightarrow> dict list" where
  "export_chain L = map to_dict (chain L)"

text \<open>
  \<^verbatim>\<open>get_units_by_status\<close>: \<^verbatim>\<open>list(units)\<close> lists the set in an order Python does
  not fix; the model lists it in insertion order, and the theorems below speak of the
  elements only.
\<close>

definition get_units_by_status :: "blockchain \<Rightarrow> string \<Rightarrow> error + json list" where
  "get_units_by_status L status =
     for_each
       (\<lambda>block units.
          bind_err (block_transactions block)
            (\<lambda>ts. for_each
               (\<lambda>t units.
                  bind_err (py_get t ''status'')
                    (\<lambda>v. if v = JStr status
                          then bind_err (py_get t ''unit_id'') (py_set_add units)
                          else Inr units))
               ts units))
       (chain L) []"

definition audit_record :: "block \<Rightarrow> json \<Rightarrow> error + dict" where
  "audit_record block t =
     bind_err (py_get t ''timestamp'') (\<lambda>ts.
     bind_err (py_get t ''type'') (\<lambda>ty.
     bind_err (py_get t ''unit_id'') (\<lambda>u.
     bind_err (py_get t ''status'') (\<lambda>st.
       Inr [(''block'', JInt (index block)),
            (''timestamp'', ts),
            (''type'', ty),
            (''unit_id'', u),
            (''status'', st),
            (''block_hash'', JStr (hash block))]))))"

definition get_audit_trail :: "blockchain \<Rightarrow> string \<Rightarrow> string \<Rightarrow> error + dict list" where
  "get_audit_trail L start_date end_date =
     for_each
       (\<lambda>block audit_records.
          (let block_time = timestamp block in
           if start_date \<le> block_time \<and> block_time \<le> end_date then
             bind_err (block_transactions block)
               (\<lambda>ts. for_each
                  (\<lambda>t audit_records.
                     bind_err (audit_record block t) (\<lambda>r. Inr (audit_records @ [r])))
                  ts audit_records)
           else Inr audit_records))
       (chain L) []"

subsection \<open>Ledgers the operations can build\<close>

text \<open>
  A ledger is reachable when it is the result of the constructor followed by calls of
  the mutating methods, each of which returned.
\<close>

inductive reachable :: "digest \<Rightarrow> blockchain \<Rightarrow> bool" for H :: digest where
  reach_init:
    "BloodUnitBlockchain_init H now = Some L \<Longrightarrow> reachable H L"
| reach_add_transaction:
    "reachable H L \<Longrightarrow> reachable H (add_transaction L t)"
| reach_create_blood_unit:
    "reachable H L \<Longrightarrow>
     reachable H (snd (create_blood_unit uuid_hex now donor_id blood_type collection_date location L))"
| reach_mine:
    "reachable H L \<Longrightarrow> mine_pending_transactions H now L = Some (Inr (L', r)) \<Longrightarrow>
     reachable H L'"
| reach_testing:
    "reachable H L \<Longrightarrow> add_testing_record H now now_block unit_id test_results L = Some (Inr L') \<Longrightarrow>
     reachable H L'"
| reach_storage:
    "reachable H L \<Longrightarrow>
     add_storage_record H now now_block unit_id storage_location temperature expiry_date L
       = Some (Inr L') \<Longrightarrow>
     reachable H L'"
| reach_transfer:
    "reachable H L \<Longrightarrow>
     add_transfer_record H now now_block unit_id from_location to_location transported_by L
       = Some (Inr L') \<Longrightarrow>
     reachable H L'"
| reach_transfusion:
    "reachable H L \<Longrightarrow>
     add_transfusion_record H now now_block unit_id hospital patient_id doctor_id L
       = Some (Inr L') \<Longrightarrow>
     reachable H L'"

text \<open>
  The typing the scans rely on: where a block has \<^verbatim>\<open>"transactions"\<close>, it is a list
  of dicts.
\<close>

fun is_dict :: "json \<Rightarrow> bool" where
  "is_dict (JObj kvs) = True"
| "is_dict _ = False"

definition block_well_typed :: "block \<Rightarrow> bool" where
  "block_well_typed b =
     (case map_of (data b) ''transactions'' of
        None \<Rightarrow> True
      | Some (JList ts) \<Rightarrow> list_all is_dict ts
      | Some _ \<Rightarrow> False)"

definition chain_well_typed :: "blockchain \<Rightarrow> bool" where
  "chain_well_typed L = list_all block_well_typed (chain L)"

text \<open>The records of a block and of the chain, in chain order, each with its block.\<close>

definition block_records :: "block \<Rightarrow> json list" where
  "block_records b = (case map_of (data b) ''transactions'' of Some (JList ts) \<Rightarrow> ts | _ \<Rightarrow> [])"

definition chain_records :: "blockchain \<Rightarrow> (block \<times> json) list" where
  "chain_records L = concat (map (\<lambda>b. map (Pair b) (block_records b)) (chain L))"

text \<open>The field \<open>k\<close> of a record, \<^verbatim>\<open>None\<close> when it has none.\<close>

definition field :: "json \<Rightarrow> string \<Rightarrow> json" where
  "field t k = (case t of JObj kvs \<Rightarrow> dict_get kvs k JNull | _ \<Rightarrow> JNull)"

subsection \<open>Notions the properties are stated with\<close>

text \<open>The block \<open>b\<close> as the mining loop leaves it once the nonce has reached \<open>n\<close>.\<close>

definition at_nonce :: "digest \<Rightarrow> block \<Rightarrow> int \<Rightarrow> block" where
  "at_nonce H b n = (let b1 = b\<lparr>nonce := n\<rparr> in b1\<lparr>hash := calculate_hash H b1\<rparr>)"

text \<open>The loop condition of \<^verbatim>\<open>mine_block\<close>, negated.\<close>

definition meets_target :: "int \<Rightarrow> block \<Rightarrow> bool" where
  "meets_target d b \<longleftrightarrow> py_slice_to d (hash b) = py_repeat ''0'' d"

text \<open>What a returned \<^verbatim>\<open>mine_block\<close> has done to a block.\<close>

definition mined :: "digest \<Rightarrow> int \<Rightarrow> block \<Rightarrow> block \<Rightarrow> bool" where
  "mined H d b b' \<longleftrightarrow>
     (b' = b \<or> hash b' = calculate_hash H b') \<and> index b' = index b
     \<and> timestamp b' = timestamp b \<and> data b' = data b
     \<and> previous_hash b' = previous_hash b \<and> meets_target d b'"

text \<open>The block \<^verbatim>\<open>mine_pending_transactions\<close> builds before mining it.\<close>

definition pending_block :: "digest \<Rightarrow> string \<Rightarrow> blockchain \<Rightarrow> block" where
  "pending_block H now L =
     Block_init H (int (length (chain L))) now
       [(''transactions'', JList (map JObj (pending_transactions L)))]
       (hash (last (chain L)))"

text \<open>The invariant of the ledger: what every block of a reachable chain satisfies.\<close>

definition chain_hashed :: "digest \<Rightarrow> block list \<Rightarrow> bool" where
  "chain_hashed H c \<longleftrightarrow> list_all (\<lambda>b. hash b = calculate_hash H b) c"

definition chain_linked :: "block list \<Rightarrow> bool" where
  "chain_linked c \<longleftrightarrow>
     (\<forall>i. 1 \<le> i \<and> i < length c \<longrightarrow> previous_hash (c ! i) = hash (c ! (i - 1)))"

definition ledger_inv :: "digest \<Rightarrow> blockchain \<Rightarrow> bool" where
  "ledger_inv H L \<longleftrightarrow>
     chain L \<noteq> [] \<and> chain_hashed H (chain L) \<and> chain_linked (chain L)
     \<and> difficulty L = 2 \<and> chain_well_typed L"

text \<open>Tampering: one field of one sealed block is overwritten in place.\<close>

datatype mutation =
    Set_index int
  | Set_timestamp string
  | Set_data dict
  | Set_previous_hash string
  | Set_nonce int
  | Set_hash string

fun mutate :: "mutation \<Rightarrow> block \<Rightarrow> block" where
  "mutate (Set_index v) b = b\<lparr>index := v\<rparr>"
| "mutate (Set_timestamp v) b = b\<lparr>timestamp := v\<rparr>"
| "mutate (Set_data v) b = b\<lparr>data := v\<rparr>"
| "mutate (Set_previous_hash v) b = b\<lparr>previous_hash := v\<rparr>"
| "mutate (Set_nonce v) b = b\<lparr>nonce := v\<rparr>"
| "mutate (Set_hash v) b = b\<lparr>hash := v\<rparr>"

definition tamper :: "nat \<Rightarrow> mutation \<Rightarrow> blockchain \<Rightarrow> blockchain" where
  "tamper i m L = L\<lparr>chain := (chain L)[i := mutate m (chain L ! i)]\<rparr>"

text \<open>
  Recomputing a block's hash from an exported dictionary: the five hashed fields are
  read back from it.
\<close>

definition hash_of_exported :: "digest \<Rightarrow> dict \<Rightarrow> error + string" where
  "hash_of_exported H e =
     bind_err (py_getitem (JObj e) ''index'') (\<lambda>i.
     bind_err (py_getitem (JObj e) ''timestamp'') (\<lambda>ts.
     bind_err (py_getitem (JObj e) ''data'') (\<lambda>d.
     bind_err (py_getitem (JObj e) ''previous_hash'') (\<lambda>ph.
     bind_err (py_getitem (JObj e) ''nonce'') (\<lambda>n.
       Inr (H (dumps (JObj [(''index'', i), (''timestamp'', ts), (''data'', d),
                            (''previous_hash'', ph), (''nonce'', n)]))))))))"

text \<open>The entry an audit trail holds for record \<open>t\<close> of block \<open>b\<close>.\<close>

definition annotate :: "block \<Rightarrow> json \<Rightarrow> dict" where
  "annotate b t =
     [(''block'', JInt (index b)),
      (''timestamp'', field t ''timestamp''),
      (''type'', field t ''type''),
      (''unit_id'', field t ''unit_id''),
      (''status'', field t ''status''),
      (''block_hash'', JStr (hash b))]"

text \<open>A timestamp value lies in \<open>[start, end]\<close>, as strings.\<close>

definition within :: "string \<Rightarrow> string \<Rightarrow> json \<Rightarrow> bool" where
  "within start_date end_date v =
     (case v of JStr ts \<Rightarrow> start_date \<le> ts \<and> ts \<le> end_date | _ \<Rightarrow> False)"

text \<open>The audit trail as the specification words it: selected by the record's timestamp.\<close>

definition audit_by_record_time :: "blockchain \<Rightarrow> string \<Rightarrow> string \<Rightarrow> dict list" where
  "audit_by_record_time L start_date end_date =
     map (\<lambda>(b, t). annotate b t)
       (filter (\<lambda>(b, t). within start_date end_date (field t ''timestamp'')) (chain_records L))"

text \<open>The audit trail selected by the timestamp of the owning block.\<close>

definition audit_by_block_time :: "blockchain \<Rightarrow> string \<Rightarrow> string \<Rightarrow> dict list" where
  "audit_by_block_time L start_date end_date =
     map (\<lambda>(b, t). annotate b t)
       (filter (\<lambda>(b, t). start_date \<le> timestamp b \<and> timestamp b \<le> end_date) (chain_records L))"

text \<open>The history entries of a unit: its records in chain order.\<close>

definition unit_records :: "blockchain \<Rightarrow> string \<Rightarrow> history_entry list" where
  "unit_records L unit_id =
     map (\<lambda>(b, t). \<lparr>block_index = index b, block_hash = hash b, transaction = t\<rparr>)
       (filter (\<lambda>(b, t). field t ''unit_id'' = JStr unit_id) (chain_records L))"

text \<open>Every record's unit id is a string, or absent.\<close>

fun str_or_none :: "json \<Rightarrow> bool" where
  "str_or_none (JStr s) = True"
| "str_or_none JNull = True"
| "str_or_none _ = False"

definition unit_ids_typed :: "blockchain \<Rightarrow> bool" where
  "unit_ids_typed L = list_all (\<lambda>(b, t). str_or_none (field t ''unit_id'')) (chain_records L)"

subsection \<open>Reading a serialisation back\<close>

text \<open>Reading a decimal numeral back.\<close>

definition dec_value :: "string \<Rightarrow> nat" where
  "dec_value s = foldl (\<lambda>a c. 10 * a + (of_char c - 48)) 0 s"

definition hex_value :: "char \<Rightarrow> nat" where
  "hex_value h = length (takeWhile (\<lambda>x. x \<noteq> h) ''0123456789abcdef'')"

text \<open>The code of the character whose escaped form starts the given text.\<close>

definition decode_char :: "string \<Rightarrow> nat" where
  "decode_char s =
     (case s of
        [] \<Rightarrow> 0
      | x # rest \<Rightarrow>
          if x \<noteq> CHR 0x5C then of_char x
          else (case rest of
                  [] \<Rightarrow> 0
                | e # rest' \<Rightarrow>
                    if e = CHR 0x22 then 34
                    else if e = CHR 0x5C then 92
                    else if e = CHR ''n'' then 10
                    else if e = CHR ''r'' then 13
                    else if e = CHR ''t'' then 9
                    else if e = CHR ''b'' then 8
                    else if e = CHR ''f'' then 12
                    else 16 * hex_value (rest' ! 2) + hex_value (rest' ! 3)))"

text \<open>
  The text of a float as \<^verbatim>\<open>json.dumps\<close> prints it: digits, sign, point, exponent, or
  one of \<^verbatim>\<open>NaN\<close>, \<^verbatim>\<open>Infinity\<close>, \<^verbatim>\<open>-Infinity\<close>; never the text of an int.
\<close>

definition float_text :: "string \<Rightarrow> bool" where
  "float_text s \<longleftrightarrow>
     s \<noteq> [] \<and> list_all (\<lambda>c. c \<in> set ''0123456789+-.eINafinty'') s
     \<and> list_ex (\<lambda>c. c \<notin> set ''-0123456789'') s"

fun wf_json :: "json \<Rightarrow> bool"
  and wf_json_list :: "json list \<Rightarrow> bool"
  and wf_json_items :: "(string \<times> json) list \<Rightarrow> bool" where
  "wf_json (JFloat r) = float_text r"
| "wf_json (JList xs) = wf_json_list xs"
| "wf_json (JObj kvs) = wf_json_items kvs"
| "wf_json JNull = True"
| "wf_json (JBool b) = True"
| "wf_json (JInt i) = True"
| "wf_json (JStr s) = True"
| "wf_json_list [] = True"
| "wf_json_list (x # xs) = (wf_json x \<and> wf_json_list xs)"
| "wf_json_items [] = True"
| "wf_json_items ((k, v) # kvs) = (wf_json v \<and> wf_json_items kvs)"

text \<open>A value with the entries of every dict in key order: equal dicts have one form.\<close>

fun canon :: "json \<Rightarrow> json"
  and canon_list :: "json list \<Rightarrow> json list"
  and canon_items :: "(string \<times> json) list \<Rightarrow> (string \<times> json) list" where
  "canon (JList xs) = JList (canon_list xs)"
| "canon (JObj kvs) = JObj (sort_key fst (canon_items kvs))"
| "canon JNull = JNull"
| "canon (JBool b) = JBool b"
| "canon (JInt i) = JInt i"
| "canon (JFloat r) = JFloat r"
| "canon (JStr s) = JStr s"
| "canon_list [] = []"
| "canon_list (x # xs) = canon x # canon_list xs"
| "canon_items [] = []"
| "canon_items ((k, v) # kvs) = (k, canon v) # canon_items kvs"

text \<open>What may follow a value inside a serialisation: nothing, a comma or a closing bracket.\<close>

definition delim :: "string \<Rightarrow> bool" where
  "delim r = (case r of [] \<Rightarrow> True | c # _ \<Rightarrow> c \<in> set '',]}'')"

text \<open>A serialisation read from the left gives the value back, up to the order of keys.\<close>

definition reads_back :: "json \<Rightarrow> bool" where
  "reads_back v \<longleftrightarrow>
     (\<forall>v' r r'. wf_json v \<longrightarrow> wf_json v' \<longrightarrow> delim r \<longrightarrow> delim r' \<longrightarrow>
        dumps v @ r = dumps v' @ r' \<longrightarrow> canon v = canon v' \<and> r = r')"

fun is_atom :: "json \<Rightarrow> bool" where
  "is_atom (JStr s) = False"
| "is_atom (JList xs) = False"
| "is_atom (JObj kvs) = False"
| "is_atom _ = True"

text \<open>The characters of the serialisation of an atom (null, a Boolean, a number).\<close>

definition plain_char :: "char \<Rightarrow> bool" where
  "plain_char c \<longleftrightarrow> c \<in> set ''0123456789+-.eINafintyulrs''"

text \<open>The first character of a serialisation tells atoms, strings, lists and dicts apart.\<close>

fun tag :: "json \<Rightarrow> nat" where
  "tag (JStr s) = 1"
| "tag (JList xs) = 2"
| "tag (JObj kvs) = 3"
| "tag _ = 0"

definition tag_of_char :: "char \<Rightarrow> nat" where
  "tag_of_char c =
     (if c = CHR 0x22 then 1 else if c = CHR ''['' then 2 else if c = CHR ''{'' then 3 else 0)"

text \<open>What \<^verbatim>\<open>calculate_hash\<close> serialises.\<close>

definition payload :: "block \<Rightarrow> json" where
  "payload b =
     JObj [(''index'', JInt (index b)),
           (''timestamp'', JStr (timestamp b)),
           (''data'', JObj (data b)),
           (''previous_hash'', JStr (previous_hash b)),
           (''nonce'', JInt (nonce b))]"

text \<open>The digest gives two texts two values, unless they are one text.\<close>

definition no_collision :: "digest \<Rightarrow> string \<Rightarrow> string \<Rightarrow> bool" where
  "no_collision H x y \<longleftrightarrow> (H x = H y \<longrightarrow> x = y)"

text \<open>
  The mutation gives the field another value; for the data, another dict (not the same
  entries in another order).
\<close>

fun changes :: "mutation \<Rightarrow> block \<Rightarrow> bool" where
  "changes (Set_index v) b = (v \<noteq> index b)"
| "changes (Set_timestamp v) b = (v \<noteq> timestamp b)"
| "changes (Set_data v) b = (canon (JObj v) \<noteq> canon (JObj (data b)))"
| "changes (Set_previous_hash v) b = (v \<noteq> previous_hash b)"
| "changes (Set_nonce v) b = (v \<noteq> nonce b)"
| "changes (Set_hash v) b = (v \<noteq> hash b)"

text \<open>The fields the validator sees only through the recomputed hash.\<close>

fun rehashed :: "mutation \<Rightarrow> bool" where
  "rehashed (Set_hash v) = False"
| "rehashed (Set_previous_hash v) = False"
| "rehashed m = True"

text \<open>
  The places \<^verbatim>\<open>is_chain_valid\<close> looks at: every field of a block after the genesis
  block, and the stored hash of the genesis block when a block follows it.
\<close>

fun validator_reads :: "blockchain \<Rightarrow> nat \<Rightarrow> mutation \<Rightarrow> bool" where
  "validator_reads L i (Set_hash v) = (1 \<le> i \<or> i + 1 < length (chain L))"
| "validator_reads L i m = (1 \<le> i)"

subsection \<open>A concrete run\<close>

text \<open>
  A small stand-in for the digest, for running the operations on concrete inputs: four
  hex digits computed from the sum of the character codes.
\<close>

definition demo_digest :: digest where
  "demo_digest s =
     (let n = (sum_list (map of_char s) :: nat)
      in [hex_digit 0, hex_digit (n mod 4), hex_digit (n div 16), hex_digit n])"

definition demo_genesis :: block where
  "demo_genesis =
     \<lparr>index = 0, timestamp = ''2024-01-01T09:00:00'', data = genesis_data,
      previous_hash = ''0'', nonce = 1, hash = ''00b8''\<rparr>"

text \<open>The ledger after \<^verbatim>\<open>BloodUnitBlockchain()\<close> at 09:00.\<close>

definition demo_created :: blockchain where
  "demo_created = \<lparr>chain = [demo_genesis], pending_transactions = [], difficulty = 2\<rparr>"

definition demo_collection :: dict where
  "demo_collection =
     [(''type'', JStr ''COLLECTION''),
      (''unit_id'', JStr ''UNIT-3F2A9C0D17B4''),
      (''blood_type'', JStr ''O+''),
      (''donor_id'', JStr ''D1''),
      (''collection_date'', JStr ''2024-01-01''),
      (''location'', JStr ''Pune''),
      (''timestamp'', JStr ''2024-01-01T10:00:00''),
      (''status'', JStr ''collected'')]"

text \<open>After \<^verbatim>\<open>create_blood_unit("D1", "O+", "2024-01-01", "Pune")\<close> at 10:00.\<close>

definition demo_collected :: blockchain where
  "demo_collected =
     \<lparr>chain = [demo_genesis], pending_transactions = [demo_collection], difficulty = 2\<rparr>"

definition demo_test_results :: dict where
  "demo_test_results = [(''passed'', JBool False), (''technician_id'', JStr ''T-7'')]"

definition demo_testing :: dict where
  "demo_testing =
     [(''type'', JStr ''TESTING''),
      (''unit_id'', JStr ''UNIT-3F2A9C0D17B4''),
      (''test_results'', JObj demo_test_results),
      (''tested_by'', JStr ''T-7''),
      (''timestamp'', JStr ''2024-01-02T08:00:00''),
      (''status'', JStr ''rejected'')]"

definition demo_block :: block where
  "demo_block =
     \<lparr>index = 1, timestamp = ''2024-01-02T08:00:01'',
      data = [(''transactions'', JList [JObj demo_collection, JObj demo_testing])],
      previous_hash = ''00b8'', nonce = 1, hash = ''00f8''\<rparr>"

text \<open>After \<^verbatim>\<open>add_testing_record\<close> of a failed test the next morning.\<close>

definition demo_tested :: blockchain where
  "demo_tested =
     \<lparr>chain = [demo_genesis, demo_block], pending_transactions = [], difficulty = 2\<rparr>"

text \<open>
  A second run: a record without a \<^verbatim>\<open>"status"\<close> entry goes in through
  \<^verbatim>\<open>add_transaction\<close> and is sealed.
\<close>

definition demo_note :: dict where
  "demo_note = [(''unit_id'', JStr ''UNIT-NOTE''), (''type'', JStr ''NOTE'')]"

definition demo_note_block :: block where
  "demo_note_block =
     \<lparr>index = 1, timestamp = ''2024-01-01T09:50:00'',
      data = [(''transactions'', JList [JObj demo_note])],
      previous_hash = ''00b8'', nonce = 2, hash = ''000c''\<rparr>"

definition demo_noted :: blockchain where
  "demo_noted =
     \<lparr>chain = [demo_genesis, demo_note_block], pending_transactions = [], difficulty = 2\<rparr>"

section \<open>Properties\<close>

subsection \<open>Hashing and mining\<close>

lemma calculate_hash_hash_update [simp]:
  "calculate_hash H (b\<lparr>hash := h\<rparr>) = calculate_hash H b"
  by (simp add: calculate_hash_def)

lemma Block_init_fields [simp]:
  "index (Block_init H i ts d ph) = i"
  "timestamp (Block_init H i ts d ph) = ts"
  "data (Block_init H i ts d ph) = d"
  "previous_hash (Block_init H i ts d ph) = ph"
  "nonce (Block_init H i ts d ph) = 0"
  by (simp_all add: Block_init_def Let_def)

lemma Block_init_hash:
  "hash (Block_init H i ts d ph) = calculate_hash H (Block_init H i ts d ph)"
  by (simp add: Block_init_def Let_def calculate_hash_def)

text \<open>Partial correctness of the mining loop, by fixpoint induction.\<close>

lemma mine_block_sound:
  assumes "mine_block H d b = Some b'"
  shows "mined H d b b'"
proof (rule mine_block.raw_induct[where P = mined, OF _ assms])
  fix mine H d b b'
  assume IH: "\<And>H d b b'. mine H d b = Some b' \<Longrightarrow> mined H d b b'"
    and step: "(if py_slice_to d (hash b) \<noteq> py_repeat ''0'' d
      then mine H d (let b1 = b\<lparr>nonce := nonce b + 1\<rparr> in b1\<lparr>hash := calculate_hash H b1\<rparr>)
      else Some b) = Some b'"
  show "mined H d b b'"
  proof (cases "py_slice_to d (hash b) = py_repeat ''0'' d")
    case True
    with step show ?thesis by (simp add: mined_def meets_target_def)
  next
    case False
    with step have
      "mine H d (b\<lparr>nonce := nonce b + 1, hash := calculate_hash H (b\<lparr>nonce := nonce b + 1\<rparr>)\<rparr>)
         = Some b'"
      by (simp add: Let_def)
    from IH[OF this] show ?thesis by (auto simp: mined_def)
  qed
qed

text \<open>The loop returns as soon as some later nonce meets the target.\<close>

lemma mine_block_terminates:
  assumes "hash b = calculate_hash H b"
    and "meets_target d (at_nonce H b (nonce b + int k))"
  shows "\<exists>b'. mine_block H d b = Some b'"
  using assms
proof (induction k arbitrary: b)
  case 0
  then have "at_nonce H b (nonce b + int 0) = b"
    by (simp add: at_nonce_def Let_def)
  with 0 show ?case
    by (subst mine_block.simps) (simp add: meets_target_def)
next
  case (Suc k)
  show ?case
  proof (cases "meets_target d b")
    case True
    then show ?thesis
      by (subst mine_block.simps) (simp add: meets_target_def)
  next
    case False
    let ?b1 = "at_nonce H b (nonce b + 1)"
    have "hash ?b1 = calculate_hash H ?b1"
      by (simp add: at_nonce_def Let_def)
    moreover have "at_nonce H ?b1 (nonce ?b1 + int k) = at_nonce H b (nonce b + int (Suc k))"
      by (simp add: at_nonce_def calculate_hash_def add.assoc Let_def)
    ultimately have "\<exists>b'. mine_block H d ?b1 = Some b'"
      using Suc.IH[of ?b1] Suc.prems(2) by simp
    with False show ?thesis
      by (subst mine_block.simps) (simp add: meets_target_def at_nonce_def Let_def)
  qed
qed

subsection \<open>The ledger invariant\<close>

lemma is_chain_valid_loop_iff:
  "is_chain_valid_loop H c js \<longleftrightarrow>
     (\<forall>i \<in> set js. hash (c ! i) = calculate_hash H (c ! i) \<and> previous_hash (c ! i) = hash (c ! (i - 1)))"
  by (induction js) (auto simp: Let_def)

lemma is_chain_valid_iff:
  "is_chain_valid H L \<longleftrightarrow>
     (\<forall>i. 1 \<le> i \<and> i < length (chain L) \<longrightarrow>
        hash (chain L ! i) = calculate_hash H (chain L ! i)
        \<and> previous_hash (chain L ! i) = hash (chain L ! (i - 1)))"
  by (auto simp: is_chain_valid_def is_chain_valid_loop_iff)

lemma chain_linked_snoc:
  assumes "chain_linked c" and "c \<noteq> []" and "previous_hash b = hash (last c)"
  shows "chain_linked (c @ [b])"
  unfolding chain_linked_def
proof (intro allI impI)
  fix i assume i: "1 \<le> i \<and> i < length (c @ [b])"
  show "previous_hash ((c @ [b]) ! i) = hash ((c @ [b]) ! (i - 1))"
  proof (cases "i < length c")
    case True
    moreover from True have "i - 1 < length c" by simp
    ultimately show ?thesis using i assms(1) by (simp add: chain_linked_def nth_append)
  next
    case False
    with i have "i = length c" by simp
    with assms(2,3) show ?thesis by (simp add: nth_append last_conv_nth)
  qed
qed

text \<open>What a returned seal has done.\<close>

lemma mine_pending_transactions_sound:
  assumes "mine_pending_transactions H now L = Some (Inr (L', r))"
  shows "(pending_transactions L = [] \<and> L' = L \<and> r = None) \<or>
         (pending_transactions L \<noteq> [] \<and> chain L \<noteq> [] \<and>
          (\<exists>nb. r = Some nb \<and> L' = L\<lparr>chain := chain L @ [nb], pending_transactions := []\<rparr>
             \<and> mined H (difficulty L) (pending_block H now L) nb))"
proof (cases "pending_transactions L = []")
  case True
  with assms show ?thesis by (simp add: mine_pending_transactions_def)
next
  case False
  show ?thesis
  proof (cases "chain L = []")
    case True
    with False assms show ?thesis
      by (simp add: mine_pending_transactions_def get_latest_block_def)
  next
    case ne: False
    with False assms obtain nb where
      m: "mine_block H (difficulty L) (pending_block H now L) = Some nb"
      and r: "r = Some nb" "L' = L\<lparr>chain := chain L @ [nb], pending_transactions := []\<rparr>"
      by (auto simp: mine_pending_transactions_def get_latest_block_def pending_block_def
          split: option.splits)
    from mine_block_sound[OF m] False ne r show ?thesis by simp
  qed
qed

lemma mined_fresh:
  assumes "mined H d (Block_init H i ts dt ph) nb"
  shows "hash nb = calculate_hash H nb" "index nb = i" "timestamp nb = ts" "data nb = dt"
    "previous_hash nb = ph" "meets_target d nb"
proof -
  let ?b = "Block_init H i ts dt ph"
  from assms have "nb = ?b \<or> hash nb = calculate_hash H nb" by (simp add: mined_def)
  then show "hash nb = calculate_hash H nb"
  proof
    assume "nb = ?b"
    then show ?thesis using Block_init_hash[of H i ts dt ph] by simp
  qed
  from assms show "index nb = i" "timestamp nb = ts" "data nb = dt"
    "previous_hash nb = ph" "meets_target d nb"
    by (simp_all add: mined_def)
qed

lemma block_well_typed_pending:
  "data b = [(''transactions'', JList (map JObj ps))] \<Longrightarrow> block_well_typed b"
  by (simp add: block_well_typed_def list_all_iff)

lemma seal_preserves_inv:
  assumes "ledger_inv H L" and "mine_pending_transactions H now L = Some (Inr (L', r))"
  shows "ledger_inv H L'"
proof -
  from mine_pending_transactions_sound[OF assms(2)] show ?thesis
  proof
    assume "pending_transactions L = [] \<and> L' = L \<and> r = None"
    with assms(1) show ?thesis by simp
  next
    assume "pending_transactions L \<noteq> [] \<and> chain L \<noteq> [] \<and>
          (\<exists>nb. r = Some nb \<and> L' = L\<lparr>chain := chain L @ [nb], pending_transactions := []\<rparr>
             \<and> mined H (difficulty L) (pending_block H now L) nb)"
    then obtain nb where ne: "chain L \<noteq> []"
      and L': "L' = L\<lparr>chain := chain L @ [nb], pending_transactions := []\<rparr>"
      and m: "mined H (difficulty L) (pending_block H now L) nb"
      by blast
    note f = mined_fresh[OF m[unfolded pending_block_def]]
    have "chain_linked (chain L @ [nb])"
      using assms(1) ne f(5) by (intro chain_linked_snoc) (simp_all add: ledger_inv_def)
    moreover have "chain_hashed H (chain L @ [nb])"
      using assms(1) f(1) by (simp add: ledger_inv_def chain_hashed_def)
    moreover have "block_well_typed nb"
      using f(4) by (rule block_well_typed_pending)
    ultimately show ?thesis
      using assms(1) by (simp add: L' ledger_inv_def chain_well_typed_def)
  qed
qed

lemma add_transaction_inv: "ledger_inv H L \<Longrightarrow> ledger_inv H (add_transaction L t)"
  by (simp add: ledger_inv_def add_transaction_def chain_well_typed_def)

lemma add_and_mine_inv:
  assumes "ledger_inv H L" and "add_and_mine H now t L = Some (Inr L')"
  shows "ledger_inv H L'"
proof -
  from assms(2) obtain r where
    "mine_pending_transactions H now (add_transaction L t) = Some (Inr (L', r))"
    by (auto simp: add_and_mine_def split: option.splits sum.splits)
  with add_transaction_inv[OF assms(1)] show ?thesis by (rule seal_preserves_inv)
qed

lemma init_inv:
  assumes "BloodUnitBlockchain_init H now = Some L"
  shows "ledger_inv H L"
proof -
  from assms obtain g where
    m: "mine_block H 2 (Block_init H 0 now genesis_data ''0'') = Some g"
    and L: "L = \<lparr>chain = [g], pending_transactions = [], difficulty = 2\<rparr>"
    by (auto simp: BloodUnitBlockchain_init_def create_genesis_block_def split: option.splits)
  note f = mined_fresh[OF mine_block_sound[OF m]]
  have "block_well_typed g"
    using f(4) by (simp add: block_well_typed_def genesis_data_def)
  with f(1) show ?thesis
    by (simp add: L ledger_inv_def chain_hashed_def chain_linked_def chain_well_typed_def)
qed

lemma reachable_inv: "reachable H L \<Longrightarrow> ledger_inv H L"
proof (induction rule: reachable.induct)
  case (reach_init now L)
  then show ?case by (rule init_inv)
next
  case (reach_add_transaction L t)
  then show ?case by (simp add: add_transaction_inv)
next
  case (reach_create_blood_unit L uuid_hex now donor_id blood_type collection_date location)
  then show ?case by (simp add: create_blood_unit_def Let_def add_transaction_inv)
next
  case (reach_mine L now L' r)
  then show ?case by (blast intro: seal_preserves_inv)
next
  case (reach_testing L now now_block unit_id test_results L')
  then show ?case unfolding add_testing_record_def by (blast intro: add_and_mine_inv)
next
  case (reach_storage L now now_block unit_id storage_location temperature expiry_date L')
  then show ?case unfolding add_storage_record_def by (blast intro: add_and_mine_inv)
next
  case (reach_transfer L now now_block unit_id from_location to_location transported_by L')
  then show ?case unfolding add_transfer_record_def by (blast intro: add_and_mine_inv)
next
  case (reach_transfusion L now now_block unit_id hospital patient_id doctor_id L')
  then show ?case unfolding add_transfusion_record_def by (blast intro: add_and_mine_inv)
qed


subsection \<open>Rules for running the operations on concrete inputs\<close>

lemma nat_to_dec_digit: "n < 10 \<Longrightarrow> nat_to_dec n = [hex_digit n]"
  by (subst nat_to_dec.simps) simp

lemma nat_to_dec_more:
  "10 \<le> n \<Longrightarrow> nat_to_dec n = nat_to_dec (n div 10) @ [hex_digit (n mod 10)]"
  by (subst nat_to_dec.simps) simp

lemma mine_block_done: "meets_target d b \<Longrightarrow> mine_block H d b = Some b"
  by (subst mine_block.simps) (simp add: meets_target_def)

lemma mine_block_step:
  "\<not> meets_target d b \<Longrightarrow> mine_block H d b = mine_block H d (at_nonce H b (nonce b + 1))"
  by (subst mine_block.simps) (simp add: meets_target_def at_nonce_def)

lemma py_repeat_zero_2: "py_repeat ''0'' 2 = ''00''"
  by (simp add: py_repeat_def eval_nat_numeral)

lemmas demo_eval =
  calculate_hash_def demo_digest_def genesis_data_def py_slice_to_def py_repeat_zero_2
  py_encode_basestring_ascii_def py_encode_char_def int_str_def nat_to_dec_digit nat_to_dec_more
  hex_digit_def Let_def meets_target_def at_nonce_def Block_init_def
  demo_genesis_def demo_block_def demo_collection_def demo_testing_def demo_test_results_def

subsection \<open>The concrete run, step by step\<close>

lemma demo_init:
  "BloodUnitBlockchain_init demo_digest ''2024-01-01T09:00:00'' = Some demo_created"
  by (simp add: BloodUnitBlockchain_init_def create_genesis_block_def demo_created_def
      mine_block_done mine_block_step demo_eval)

lemma demo_create:
  "create_blood_unit ''3f2a9c0d17b44e5a8c6d2f1e0b9a7c53'' ''2024-01-01T10:00:00''
     ''D1'' ''O+'' ''2024-01-01'' ''Pune'' demo_created = (''UNIT-3F2A9C0D17B4'', demo_collected)"
  by (simp add: create_blood_unit_def add_transaction_def demo_created_def demo_collected_def
      demo_collection_def py_upper_char_def Let_def)

lemma demo_testing_transaction:
  "testing_transaction ''2024-01-02T08:00:00'' ''UNIT-3F2A9C0D17B4'' demo_test_results
     = demo_testing"
  by (simp add: testing_transaction_def demo_testing_def demo_test_results_def dict_get_def)

lemma demo_seal:
  "mine_pending_transactions demo_digest ''2024-01-02T08:00:01''
     (add_transaction demo_collected demo_testing) = Some (Inr (demo_tested, Some demo_block))"
  by (simp add: mine_pending_transactions_def add_transaction_def get_latest_block_def
      demo_collected_def demo_tested_def mine_block_done mine_block_step demo_eval)

lemma demo_test:
  "add_testing_record demo_digest ''2024-01-02T08:00:00'' ''2024-01-02T08:00:01''
     ''UNIT-3F2A9C0D17B4'' demo_test_results demo_collected = Some (Inr demo_tested)"
  by (simp add: add_testing_record_def add_and_mine_def demo_testing_transaction demo_seal)

lemma demo_created_reachable: "reachable demo_digest demo_created"
  by (rule reach_init[OF demo_init])

lemma demo_collected_reachable: "reachable demo_digest demo_collected"
  using reach_create_blood_unit[OF demo_created_reachable,
      of "''3f2a9c0d17b44e5a8c6d2f1e0b9a7c53''" "''2024-01-01T10:00:00''" "''D1''" "''O+''"
         "''2024-01-01''" "''Pune''"]
  by (simp add: demo_create)

lemma demo_tested_reachable: "reachable demo_digest demo_tested"
  by (rule reach_testing[OF demo_collected_reachable demo_test])

lemma demo_tested_chain:
  "chain demo_tested = [demo_genesis, demo_block]" "length (chain demo_tested) = 2"
  by (simp_all add: demo_tested_def)

text \<open>Every reachable ledger has the typing the scans rely on, and difficulty 2.\<close>

lemma reachable_well_typed:
  "reachable H L \<Longrightarrow> chain_well_typed L \<and> difficulty L = 2 \<and> chain L \<noteq> []"
  using reachable_inv[of H L] by (simp add: ledger_inv_def)

section \<open>The claims\<close>

subsection \<open>Validity of reachable ledgers; sealing\<close>

text \<open>
  C1. Every ledger built by the constructor followed by any sequence of
  \<^verbatim>\<open>add_transaction\<close>, \<^verbatim>\<open>create_blood_unit\<close>, \<^verbatim>\<open>mine_pending_transactions\<close> and
  \<^verbatim>\<open>add_*_record\<close> calls that returned validates: \<^verbatim>\<open>is_chain_valid\<close> is true, and every
  block after the first carries the hash of its predecessor as \<^verbatim>\<open>previous_hash\<close>.
\<close>

theorem reachable_chain_valid:
  assumes "reachable H L"
  shows "is_chain_valid H L \<and>
     (\<forall>i. 1 \<le> i \<and> i < length (chain L) \<longrightarrow>
        previous_hash (chain L ! i) = hash (chain L ! (i - 1)))"
proof -
  from reachable_inv[OF assms] have h: "chain_hashed H (chain L)" and l: "chain_linked (chain L)"
    by (simp_all add: ledger_inv_def)
  from h have "\<And>i. i < length (chain L) \<Longrightarrow> hash (chain L ! i) = calculate_hash H (chain L ! i)"
    by (simp add: chain_hashed_def list_all_length)
  with l show ?thesis
    by (simp add: is_chain_valid_iff chain_linked_def)
qed

theorem reachable_chain_valid_witness:
  "reachable demo_digest demo_tested \<and> is_chain_valid demo_digest demo_tested
   \<and> (1::nat) \<le> 1 \<and> 1 < length (chain demo_tested)
   \<and> previous_hash (chain demo_tested ! 1) = hash (chain demo_tested ! (1 - 1))"
proof -
  note r = demo_tested_reachable
  have i: "(1::nat) \<le> 1 \<and> 1 < length (chain demo_tested)"
    by (simp add: demo_tested_chain)
  from reachable_chain_valid[OF r] have
    v: "is_chain_valid demo_digest demo_tested"
    and "\<forall>i. 1 \<le> i \<and> i < length (chain demo_tested) \<longrightarrow>
           previous_hash (chain demo_tested ! i) = hash (chain demo_tested ! (i - 1))"
    by blast+
  with i have "previous_hash (chain demo_tested ! 1) = hash (chain demo_tested ! (1 - 1))"
    by blast
  with r v i show ?thesis by blast
qed

text \<open>
  C7. With nothing pending, \<^verbatim>\<open>mine_pending_transactions\<close> returns \<^verbatim>\<open>None\<close> without
  raising and leaves the ledger, chain and pending buffer alike, as it was.
\<close>

theorem seal_nothing_pending:
  assumes "pending_transactions L = []"
  shows "mine_pending_transactions H now L = Some (Inr (L, None))"
  using assms by (simp add: mine_pending_transactions_def)

theorem seal_nothing_pending_witness:
  "pending_transactions demo_created = []
   \<and> mine_pending_transactions demo_digest ''2024-01-01T09:30:00'' demo_created
       = Some (Inr (demo_created, None))"
proof -
  have e: "pending_transactions demo_created = []"
    by (simp add: demo_created_def)
  show ?thesis
    using e seal_nothing_pending[OF e, of demo_digest "''2024-01-01T09:30:00''"] by simp
qed

lemma block_records_pending:
  "data b = [(''transactions'', JList ts)] \<Longrightarrow> block_records b = ts"
  by (simp add: block_records_def)

lemma meets_target_prefix:
  "meets_target d b \<longleftrightarrow> py_slice_to d (hash b) = replicate (nat d) CHR ''0''"
  by (simp add: meets_target_def py_repeat_def)

lemma meets_target_take:
  assumes "meets_target d b"
  shows "take (nat d) (hash b) = replicate (nat d) CHR ''0''"
proof (cases "0 \<le> d")
  case True
  with assms show ?thesis by (simp add: meets_target_prefix py_slice_to_def)
next
  case False
  then show ?thesis by simp
qed

text \<open>A seal with something pending, on a ledger with a chain, once some nonce meets the target.\<close>

lemma seal_returns:
  assumes "pending_transactions L \<noteq> []" and "chain L \<noteq> []"
    and "meets_target (difficulty L) (at_nonce H (pending_block H now L) (int k))"
  shows "\<exists>b. mine_pending_transactions H now L
              = Some (Inr (L\<lparr>chain := chain L @ [b], pending_transactions := []\<rparr>, Some b))
           \<and> mined H (difficulty L) (pending_block H now L) b"
proof -
  let ?p = "pending_block H now L"
  have h: "hash ?p = calculate_hash H ?p" and n: "nonce ?p = 0"
    by (simp_all add: pending_block_def Block_init_hash)
  from assms(3) n have "meets_target (difficulty L) (at_nonce H ?p (nonce ?p + int k))"
    by simp
  from mine_block_terminates[OF h this] obtain b where
    m: "mine_block H (difficulty L) ?p = Some b" by blast
  from m assms(1,2) have
    "mine_pending_transactions H now L
       = Some (Inr (L\<lparr>chain := chain L @ [b], pending_transactions := []\<rparr>, Some b))"
    by (simp add: mine_pending_transactions_def get_latest_block_def pending_block_def)
  with mine_block_sound[OF m] show ?thesis by blast
qed

text \<open>
  C3. With records pending (and a chain to extend), \<^verbatim>\<open>mine_pending_transactions\<close>
  returns as soon as some nonce meets the target. It then has appended exactly one block:
  its index is the former chain length, its \<^verbatim>\<open>previous_hash\<close> the hash of the former
  last block, its records the pending records in their order, and its hash starts with
  \<^verbatim>\<open>difficulty\<close> characters \<^verbatim>\<open>'0'\<close>. The pending list is cleared, the block is the
  returned value, and the blocks that were there are untouched.
\<close>

theorem seal_appends_block:
  assumes "pending_transactions L \<noteq> []" and "chain L \<noteq> []"
    and "meets_target (difficulty L) (at_nonce H (pending_block H now L) (int k))"
  shows "\<exists>b. mine_pending_transactions H now L
              = Some (Inr (L\<lparr>chain := chain L @ [b], pending_transactions := []\<rparr>, Some b))
           \<and> index b = int (length (chain L))
           \<and> previous_hash b = hash (last (chain L))
           \<and> block_records b = map JObj (pending_transactions L)
           \<and> timestamp b = now
           \<and> hash b = calculate_hash H b
           \<and> py_slice_to (difficulty L) (hash b) = py_repeat ''0'' (difficulty L)
           \<and> take (nat (difficulty L)) (hash b) = replicate (nat (difficulty L)) CHR ''0''"
proof -
  from seal_returns[OF assms] obtain b where
    r: "mine_pending_transactions H now L
          = Some (Inr (L\<lparr>chain := chain L @ [b], pending_transactions := []\<rparr>, Some b))"
    and m: "mined H (difficulty L) (pending_block H now L) b"
    by blast
  note f = mined_fresh[OF m[unfolded pending_block_def]]
  have "block_records b = map JObj (pending_transactions L)"
    using f(4) by (rule block_records_pending)
  moreover have "py_slice_to (difficulty L) (hash b) = py_repeat ''0'' (difficulty L)"
    using f(6) by (simp add: meets_target_def)
  moreover have "take (nat (difficulty L)) (hash b) = replicate (nat (difficulty L)) CHR ''0''"
    using f(6) by (rule meets_target_take)
  ultimately show ?thesis using r f(1,2,3,5) by blast
qed

theorem seal_appends_block_witness:
  "pending_transactions (add_transaction demo_collected demo_testing) \<noteq> []
   \<and> chain (add_transaction demo_collected demo_testing) \<noteq> []
   \<and> meets_target (difficulty (add_transaction demo_collected demo_testing))
        (at_nonce demo_digest
           (pending_block demo_digest ''2024-01-02T08:00:01''
              (add_transaction demo_collected demo_testing)) (int 1))
   \<and> mine_pending_transactions demo_digest ''2024-01-02T08:00:01''
        (add_transaction demo_collected demo_testing) = Some (Inr (demo_tested, Some demo_block))
   \<and> index demo_block = 1
   \<and> previous_hash demo_block = hash demo_genesis
   \<and> block_records demo_block = [JObj demo_collection, JObj demo_testing]
   \<and> take 2 (hash demo_block) = ''00''"
proof -
  let ?L = "add_transaction demo_collected demo_testing"
  have p: "pending_transactions ?L \<noteq> []" and c: "chain ?L \<noteq> []"
    by (simp_all add: add_transaction_def demo_collected_def)
  have t: "meets_target (difficulty ?L)
        (at_nonce demo_digest (pending_block demo_digest ''2024-01-02T08:00:01'' ?L) (int 1))"
    by (simp add: pending_block_def add_transaction_def demo_collected_def demo_eval)
  from seal_appends_block[OF p c t] obtain b where
    "mine_pending_transactions demo_digest ''2024-01-02T08:00:01'' ?L
       = Some (Inr (?L\<lparr>chain := chain ?L @ [b], pending_transactions := []\<rparr>, Some b))"
    and i: "index b = int (length (chain ?L))"
    and l: "previous_hash b = hash (last (chain ?L))"
    and r: "block_records b = map JObj (pending_transactions ?L)"
    and z: "take (nat (difficulty ?L)) (hash b) = replicate (nat (difficulty ?L)) CHR ''0''"
    by blast
  with demo_seal have b: "b = demo_block" by simp
  from i have "index demo_block = 1"
    by (simp add: b add_transaction_def demo_collected_def)
  moreover from l have "previous_hash demo_block = hash demo_genesis"
    by (simp add: b add_transaction_def demo_collected_def)
  moreover from r have "block_records demo_block = [JObj demo_collection, JObj demo_testing]"
    by (simp add: b add_transaction_def demo_collected_def)
  moreover from z have "take 2 (hash demo_block) = ''00''"
    by (simp add: b add_transaction_def demo_collected_def eval_nat_numeral)
  ultimately show ?thesis using p c t demo_seal by blast
qed

subsection \<open>Testing records\<close>

lemma add_and_mine_returns:
  assumes "chain L \<noteq> []"
    and "meets_target (difficulty L)
           (at_nonce H (pending_block H now_block (add_transaction L tx)) (int k))"
  shows "\<exists>b. add_and_mine H now_block tx L
              = Some (Inr (L\<lparr>chain := chain L @ [b], pending_transactions := []\<rparr>))
           \<and> block_records b = map JObj (pending_transactions L) @ [JObj tx]
           \<and> index b = int (length (chain L))
           \<and> hash b = calculate_hash H b"
proof -
  let ?L = "add_transaction L tx"
  have p: "pending_transactions ?L \<noteq> []" and c: "chain ?L \<noteq> []"
    using assms(1) by (simp_all add: add_transaction_def)
  have t: "meets_target (difficulty ?L) (at_nonce H (pending_block H now_block ?L) (int k))"
    using assms(2) by (simp add: add_transaction_def)
  from seal_returns[OF p c t] obtain b where
    r: "mine_pending_transactions H now_block ?L
          = Some (Inr (?L\<lparr>chain := chain ?L @ [b], pending_transactions := []\<rparr>, Some b))"
    and m: "mined H (difficulty ?L) (pending_block H now_block ?L) b"
    by blast
  note f = mined_fresh[OF m[unfolded pending_block_def]]
  have "block_records b = map JObj (pending_transactions L) @ [JObj tx]"
    using block_records_pending[OF f(4)] by (simp add: add_transaction_def)
  moreover have "add_and_mine H now_block tx L
              = Some (Inr (L\<lparr>chain := chain L @ [b], pending_transactions := []\<rparr>))"
    using r by (simp add: add_and_mine_def add_transaction_def)
  moreover have "index b = int (length (chain L))"
    using f(2) by (simp add: add_transaction_def)
  ultimately show ?thesis using f(1) by blast
qed

lemma testing_transaction_status:
  "field (JObj (testing_transaction now unit_id test_results)) ''status''
     = JStr (if py_truthy (dict_get test_results ''passed'' (JBool True))
             then ''tested'' else ''rejected'')"
  by (simp add: field_def testing_transaction_def dict_get_def)

text \<open>
  C9, as stated, fails: \<^verbatim>\<open>add_testing_record\<close> seals everything that is pending, so
  after \<^verbatim>\<open>create_blood_unit\<close> (which does not seal) the new block holds the COLLECTION
  record as well as the TESTING record; it is not a block of the TESTING record alone.
\<close>

theorem testing_record_own_block_counterexample:
  "add_testing_record demo_digest ''2024-01-02T08:00:00'' ''2024-01-02T08:00:01''
     ''UNIT-3F2A9C0D17B4'' demo_test_results demo_collected = Some (Inr demo_tested)
   \<and> chain demo_tested = chain demo_collected @ [demo_block]
   \<and> block_records demo_block = [JObj demo_collection, JObj demo_testing]
   \<and> block_records demo_block
       \<noteq> [JObj (testing_transaction ''2024-01-02T08:00:00'' ''UNIT-3F2A9C0D17B4''
                  demo_test_results)]"
proof -
  have "chain demo_tested = chain demo_collected @ [demo_block]"
    by (simp add: demo_tested_def demo_collected_def)
  moreover have r: "block_records demo_block = [JObj demo_collection, JObj demo_testing]"
    by (simp add: demo_block_def block_records_def)
  moreover have "block_records demo_block \<noteq> [JObj demo_testing]"
    by (simp add: r)
  ultimately show ?thesis
    using demo_test by (simp add: demo_testing_transaction)
qed

text \<open>
  C9, amended. \<^verbatim>\<open>add_testing_record\<close> returns as soon as some nonce meets the target
  (on a ledger with a chain). It appends one block that holds the records pending before
  the call followed by the new TESTING record, and leaves nothing pending. The record's
  status is \<^verbatim>\<open>"tested"\<close> when \<^verbatim>\<open>test_results.get("passed", True)\<close> is truthy and
  \<^verbatim>\<open>"rejected"\<close> otherwise; for a Boolean \<^verbatim>\<open>passed\<close> that is \<^verbatim>\<open>"tested"\<close> for
  \<^verbatim>\<open>True\<close> and \<^verbatim>\<open>"rejected"\<close> for \<^verbatim>\<open>False\<close>.
\<close>

theorem testing_record_sealed:
  assumes "chain L \<noteq> []"
    and "meets_target (difficulty L)
           (at_nonce H
              (pending_block H now_block
                 (add_transaction L (testing_transaction now unit_id test_results)))
              (int k))"
  shows "\<exists>b. add_testing_record H now now_block unit_id test_results L
              = Some (Inr (L\<lparr>chain := chain L @ [b], pending_transactions := []\<rparr>))
           \<and> block_records b
               = map JObj (pending_transactions L)
                 @ [JObj (testing_transaction now unit_id test_results)]
           \<and> field (JObj (testing_transaction now unit_id test_results)) ''status''
               = JStr (if py_truthy (dict_get test_results ''passed'' (JBool True))
                       then ''tested'' else ''rejected'')
           \<and> (\<forall>passed. map_of test_results ''passed'' = Some (JBool passed) \<longrightarrow>
                 field (JObj (testing_transaction now unit_id test_results)) ''status''
                   = JStr (if passed then ''tested'' else ''rejected''))"
proof -
  from add_and_mine_returns[OF assms] obtain b where
    "add_and_mine H now_block (testing_transaction now unit_id test_results) L
       = Some (Inr (L\<lparr>chain := chain L @ [b], pending_transactions := []\<rparr>))"
    and "block_records b
           = map JObj (pending_transactions L)
             @ [JObj (testing_transaction now unit_id test_results)]"
    by blast
  moreover have "\<forall>passed. map_of test_results ''passed'' = Some (JBool passed) \<longrightarrow>
      field (JObj (testing_transaction now unit_id test_results)) ''status''
        = JStr (if passed then ''tested'' else ''rejected'')"
    by (simp add: testing_transaction_status dict_get_def)
  ultimately show ?thesis
    using testing_transaction_status[of now unit_id test_results]
    unfolding add_testing_record_def by blast
qed

theorem testing_record_sealed_witness:
  "chain demo_collected \<noteq> []
   \<and> meets_target (difficulty demo_collected)
        (at_nonce demo_digest
           (pending_block demo_digest ''2024-01-02T08:00:01''
              (add_transaction demo_collected
                 (testing_transaction ''2024-01-02T08:00:00'' ''UNIT-3F2A9C0D17B4''
                    demo_test_results)))
           (int 1))
   \<and> map_of demo_test_results ''passed'' = Some (JBool False)
   \<and> add_testing_record demo_digest ''2024-01-02T08:00:00'' ''2024-01-02T08:00:01''
        ''UNIT-3F2A9C0D17B4'' demo_test_results demo_collected = Some (Inr demo_tested)
   \<and> pending_transactions demo_tested = []
   \<and> field (JObj (testing_transaction ''2024-01-02T08:00:00'' ''UNIT-3F2A9C0D17B4''
                     demo_test_results)) ''status'' = JStr ''rejected''"
proof -
  let ?tx = "testing_transaction ''2024-01-02T08:00:00'' ''UNIT-3F2A9C0D17B4'' demo_test_results"
  have c: "chain demo_collected \<noteq> []"
    by (simp add: demo_collected_def)
  have t: "meets_target (difficulty demo_collected)
        (at_nonce demo_digest
           (pending_block demo_digest ''2024-01-02T08:00:01''
              (add_transaction demo_collected ?tx)) (int 1))"
    unfolding demo_testing_transaction
    by (simp add: pending_block_def add_transaction_def demo_collected_def demo_eval)
  have p: "map_of demo_test_results ''passed'' = Some (JBool False)"
    by (simp add: demo_test_results_def)
  from testing_record_sealed[OF c t] have
    "\<forall>passed. map_of demo_test_results ''passed'' = Some (JBool passed) \<longrightarrow>
       field (JObj ?tx) ''status'' = JStr (if passed then ''tested'' else ''rejected'')"
    by blast
  with p have "field (JObj ?tx) ''status'' = JStr ''rejected''"
    by force
  moreover have "pending_transactions demo_tested = []"
    by (simp add: demo_tested_def)
  ultimately show ?thesis using c t p demo_test by blast
qed

text \<open>
  C10. When \<^verbatim>\<open>test_results\<close> has no \<^verbatim>\<open>"passed"\<close> key, the TESTING record that
  \<^verbatim>\<open>add_testing_record\<close> appends and seals (the last record of the new block) has status
  \<^verbatim>\<open>"tested"\<close>: a missing outcome counts as a passed test.
\<close>

theorem missing_outcome_is_tested:
  assumes "map_of test_results ''passed'' = None"
    and "chain L \<noteq> []"
    and "meets_target (difficulty L)
           (at_nonce H
              (pending_block H now_block
                 (add_transaction L (testing_transaction now unit_id test_results)))
              (int k))"
  shows "\<exists>b. add_testing_record H now now_block unit_id test_results L
              = Some (Inr (L\<lparr>chain := chain L @ [b], pending_transactions := []\<rparr>))
           \<and> last (block_records b) = JObj (testing_transaction now unit_id test_results)
           \<and> field (last (block_records b)) ''type'' = JStr ''TESTING''
           \<and> field (last (block_records b)) ''status'' = JStr ''tested''"
proof -
  let ?tx = "testing_transaction now unit_id test_results"
  from add_and_mine_returns[OF assms(2,3)] obtain b where
    r: "add_and_mine H now_block ?tx L
       = Some (Inr (L\<lparr>chain := chain L @ [b], pending_transactions := []\<rparr>))"
    and br: "block_records b = map JObj (pending_transactions L) @ [JObj ?tx]"
    by blast
  from br have l: "last (block_records b) = JObj ?tx" by simp
  have "field (JObj ?tx) ''status'' = JStr ''tested''"
    using assms(1) by (simp add: testing_transaction_status dict_get_def)
  moreover have "field (JObj ?tx) ''type'' = JStr ''TESTING''"
    by (simp add: field_def testing_transaction_def dict_get_def)
  ultimately show ?thesis
    using r l unfolding add_testing_record_def by auto
qed

theorem missing_outcome_is_tested_witness:
  "map_of [(''technician_id'', JStr ''T-2'')] ''passed'' = None
   \<and> chain demo_created \<noteq> []
   \<and> meets_target (difficulty demo_created)
        (at_nonce demo_digest
           (pending_block demo_digest ''2024-01-01T09:40:01''
              (add_transaction demo_created
                 (testing_transaction ''2024-01-01T09:40:00'' ''UNIT-000000000001''
                    [(''technician_id'', JStr ''T-2'')])))
           (int 3))
   \<and> (\<exists>b. add_testing_record demo_digest ''2024-01-01T09:40:00'' ''2024-01-01T09:40:01''
              ''UNIT-000000000001'' [(''technician_id'', JStr ''T-2'')] demo_created
              = Some (Inr (demo_created\<lparr>chain := chain demo_created @ [b],
                                        pending_transactions := []\<rparr>))
           \<and> field (last (block_records b)) ''status'' = JStr ''tested'')"
proof -
  let ?tr = "[(''technician_id'', JStr ''T-2'')]"
  have m: "map_of ?tr ''passed'' = None" by simp
  have c: "chain demo_created \<noteq> []" by (simp add: demo_created_def)
  have t: "meets_target (difficulty demo_created)
        (at_nonce demo_digest
           (pending_block demo_digest ''2024-01-01T09:40:01''
              (add_transaction demo_created
                 (testing_transaction ''2024-01-01T09:40:00'' ''UNIT-000000000001'' ?tr)))
           (int 3))"
    by (simp add: testing_transaction_def dict_get_def pending_block_def add_transaction_def
        demo_created_def demo_eval)
  from missing_outcome_is_tested[OF m c t] m c t show ?thesis by blast
qed

subsection \<open>Reproducible hashes\<close>

lemma hash_of_exported_to_dict: "hash_of_exported H (to_dict b) = Inr (calculate_hash H b)"
  by (simp add: hash_of_exported_def to_dict_def bind_err_def calculate_hash_def)

text \<open>
  C4. For every block of a reachable ledger, the recomputed hash is the stored hash;
  storing the recomputed hash and recomputing again gives the same value, since the
  stored hash is not hashed; and the hash recomputed from the fields of the exported
  dictionary is the stored hash.
\<close>

theorem block_hash_reproducible:
  assumes "reachable H L" and "b \<in> set (chain L)"
  shows "calculate_hash H b = hash b
     \<and> calculate_hash H (b\<lparr>hash := calculate_hash H b\<rparr>) = calculate_hash H b
     \<and> hash_of_exported H (to_dict b) = Inr (hash b)"
proof -
  from reachable_inv[OF assms(1)] have "chain_hashed H (chain L)"
    by (simp add: ledger_inv_def)
  with assms(2) have "hash b = calculate_hash H b"
    by (simp add: chain_hashed_def list_all_iff)
  then show ?thesis
    by (simp add: hash_of_exported_to_dict)
qed

theorem block_hash_reproducible_witness:
  "reachable demo_digest demo_tested \<and> demo_block \<in> set (chain demo_tested)
   \<and> calculate_hash demo_digest demo_block = ''00f8''
   \<and> hash_of_exported demo_digest (to_dict demo_block) = Inr ''00f8''"
proof -
  have b: "demo_block \<in> set (chain demo_tested)"
    by (simp add: demo_tested_chain)
  have h: "hash demo_block = ''00f8''"
    by (simp add: demo_block_def)
  from block_hash_reproducible[OF demo_tested_reachable b] show ?thesis
    using demo_tested_reachable b by (simp add: h)
qed

subsection \<open>The scans over the chain\<close>

lemma bind_err_simps [simp]:
  "bind_err (Inl e) f = Inl e"
  "bind_err (Inr x) f = f x"
  by (simp_all add: bind_err_def)

lemma py_get_dict: "is_dict t \<Longrightarrow> py_get t k = Inr (field t k)"
  by (cases t) (simp_all add: field_def)

lemma block_transactions_typed:
  assumes "block_well_typed b"
  shows "block_transactions b = Inr (block_records b)" and "list_all is_dict (block_records b)"
  using assms
  by (auto simp: block_well_typed_def block_transactions_def block_records_def
      split: option.splits json.splits)

lemma chain_well_typed_block:
  "chain_well_typed L \<Longrightarrow> b \<in> set (chain L) \<Longrightarrow> block_well_typed b"
  by (simp add: chain_well_typed_def list_all_iff)

text \<open>A loop whose body only appends to the accumulator.\<close>

lemma for_each_appends:
  assumes "\<And>x acc. x \<in> set xs \<Longrightarrow> body x acc = Inr (acc @ out x)"
  shows "for_each body xs acc = Inr (acc @ concat (map out xs))"
  using assms by (induction xs arbitrary: acc) simp_all

lemma concat_map_if:
  "concat (map (\<lambda>x. if P x then [f x] else []) xs) = map f (filter P xs)"
  by (induction xs) simp_all

lemma chain_records_select:
  "map f (filter P (chain_records L))
     = concat (map (\<lambda>b. map (\<lambda>t. f (b, t)) (filter (\<lambda>t. P (b, t)) (block_records b))) (chain L))"
  unfolding chain_records_def
  by (induction "chain L" arbitrary: L) (simp_all add: map_concat filter_concat comp_def filter_map)

lemma get_unit_history_typed:
  assumes "chain_well_typed L"
  shows "get_unit_history L unit_id = Inr (unit_records L unit_id)"
proof -
  let ?entry = "\<lambda>b t. \<lparr>block_index = index b, block_hash = hash b, transaction = t\<rparr>"
  let ?inner = "\<lambda>block t history.
      bind_err (py_get t ''unit_id'')
        (\<lambda>v. Inr (if v = JStr unit_id then history @ [?entry block t] else history))"
  let ?out = "\<lambda>b. map (?entry b) (filter (\<lambda>t. field t ''unit_id'' = JStr unit_id) (block_records b))"
  have inner: "for_each (?inner b) ts acc
      = Inr (acc @ map (?entry b) (filter (\<lambda>t. field t ''unit_id'' = JStr unit_id) ts))"
    if "list_all is_dict ts" for b ts acc
  proof -
    have "for_each (?inner b) ts acc
        = Inr (acc @ concat (map (\<lambda>t. if field t ''unit_id'' = JStr unit_id then [?entry b t] else []) ts))"
      using that by (intro for_each_appends) (simp add: list_all_iff py_get_dict)
    then show ?thesis by (simp add: concat_map_if)
  qed
  have "get_unit_history L unit_id = Inr ([] @ concat (map ?out (chain L)))"
    unfolding get_unit_history_def
  proof (rule for_each_appends)
    fix b acc assume "b \<in> set (chain L)"
    then have wt: "block_well_typed b" using assms by (rule chain_well_typed_block[rotated])
    show "bind_err (block_transactions b) (\<lambda>ts. for_each (?inner b) ts acc) = Inr (acc @ ?out b)"
      using block_transactions_typed[OF wt] by (simp add: inner)
  qed
  also have "concat (map ?out (chain L)) = unit_records L unit_id"
    unfolding unit_records_def
    by (simp add: chain_records_select[where f = "\<lambda>(b, t). ?entry b t"
          and P = "\<lambda>(b, t). field t ''unit_id'' = JStr unit_id"])
  finally show ?thesis by simp
qed

subsection \<open>History and verification of a unit\<close>

lemma demo_tested_well_typed: "chain_well_typed demo_tested"
  by (simp add: chain_well_typed_def block_well_typed_def demo_tested_def demo_genesis_def
      demo_block_def genesis_data_def)

lemma demo_tested_records:
  "chain_records demo_tested = [(demo_block, JObj demo_collection), (demo_block, JObj demo_testing)]"
  by (simp add: chain_records_def block_records_def demo_tested_def demo_genesis_def
      demo_block_def genesis_data_def)

lemma demo_fields:
  "field (JObj demo_collection) ''unit_id'' = JStr ''UNIT-3F2A9C0D17B4''"
  "field (JObj demo_testing) ''unit_id'' = JStr ''UNIT-3F2A9C0D17B4''"
  "field (JObj demo_collection) ''status'' = JStr ''collected''"
  "field (JObj demo_testing) ''status'' = JStr ''rejected''"
  "field (JObj demo_collection) ''timestamp'' = JStr ''2024-01-01T10:00:00''"
  "field (JObj demo_testing) ''timestamp'' = JStr ''2024-01-02T08:00:00''"
  "field (JObj demo_collection) ''type'' = JStr ''COLLECTION''"
  "field (JObj demo_testing) ''type'' = JStr ''TESTING''"
  by (simp_all add: field_def dict_get_def demo_collection_def demo_testing_def)

text \<open>
  What \<^verbatim>\<open>verify_unit_authenticity\<close> does on a ledger whose blocks hold lists of dicts:
  \<^verbatim>\<open>get_unit_history\<close> returns the records of the unit in chain order, each with its
  block's index and hash. When there is none, the not-found dictionary is returned, with
  \<^verbatim>\<open>verified\<close> false. When there are some and the last one has a \<^verbatim>\<open>"status"\<close> entry,
  the result has \<^verbatim>\<open>verified\<close> and \<^verbatim>\<open>blockchain_valid\<close> equal to the result of
  \<^verbatim>\<open>is_chain_valid\<close>, the number of the unit's records as \<^verbatim>\<open>total_records\<close> and the
  status of the last of them as \<^verbatim>\<open>current_status\<close>.
\<close>

lemma verify_unit_verdict:
  assumes "chain_well_typed L"
  shows "get_unit_history L unit_id = Inr (unit_records L unit_id)
    \<and> (unit_records L unit_id = [] \<longrightarrow>
         verify_unit_authenticity H L unit_id
           = Inr [(''verified'', JBool False),
                  (''message'', JStr ''Unit ID not found in blockchain''),
                  (''unit_id'', JStr unit_id)])
    \<and> (\<forall>st. unit_records L unit_id \<noteq> []
             \<and> py_getitem (transaction (last (unit_records L unit_id))) ''status'' = Inr st \<longrightarrow>
         verify_unit_authenticity H L unit_id
           = Inr [(''verified'', JBool (is_chain_valid H L)),
                  (''message'', JStr (if is_chain_valid H L then ''Unit verified and authentic''
                                      else ''Blockchain compromised!'')),
                  (''unit_id'', JStr unit_id),
                  (''total_records'', JInt (int (length (unit_records L unit_id)))),
                  (''current_status'', st),
                  (''blockchain_valid'', JBool (is_chain_valid H L))])"
  by (simp add: verify_unit_authenticity_def get_unit_history_typed[OF assms] Let_def)

lemma verify_unit_verdict_demo:
  "chain_well_typed demo_tested
   \<and> unit_records demo_tested ''UNIT-3F2A9C0D17B4''
       = [\<lparr>block_index = 1, block_hash = ''00f8'', transaction = JObj demo_collection\<rparr>,
          \<lparr>block_index = 1, block_hash = ''00f8'', transaction = JObj demo_testing\<rparr>]
   \<and> verify_unit_authenticity demo_digest demo_tested ''UNIT-3F2A9C0D17B4''
       = Inr [(''verified'', JBool True),
              (''message'', JStr ''Unit verified and authentic''),
              (''unit_id'', JStr ''UNIT-3F2A9C0D17B4''),
              (''total_records'', JInt 2),
              (''current_status'', JStr ''rejected''),
              (''blockchain_valid'', JBool True)]
   \<and> unit_records demo_tested ''UNIT-000000000000'' = []
   \<and> verify_unit_authenticity demo_digest demo_tested ''UNIT-000000000000''
       = Inr [(''verified'', JBool False),
              (''message'', JStr ''Unit ID not found in blockchain''),
              (''unit_id'', JStr ''UNIT-000000000000'')]"
proof -
  note w = demo_tested_well_typed
  have v: "is_chain_valid demo_digest demo_tested"
    using reachable_inv[OF demo_tested_reachable]
    by (simp add: is_chain_valid_iff ledger_inv_def chain_hashed_def chain_linked_def
        list_all_length)
  have u: "unit_records demo_tested ''UNIT-3F2A9C0D17B4''
       = [\<lparr>block_index = 1, block_hash = ''00f8'', transaction = JObj demo_collection\<rparr>,
          \<lparr>block_index = 1, block_hash = ''00f8'', transaction = JObj demo_testing\<rparr>]"
    by (simp add: unit_records_def demo_tested_records demo_fields) (simp add: demo_block_def)
  have s: "py_getitem (transaction (last (unit_records demo_tested ''UNIT-3F2A9C0D17B4'')))
             ''status'' = Inr (JStr ''rejected'')"
    by (simp add: u) (simp add: demo_testing_def)
  have n: "unit_records demo_tested ''UNIT-000000000000'' = []"
    by (simp add: unit_records_def demo_tested_records demo_fields)
  from verify_unit_verdict[OF w, of "''UNIT-3F2A9C0D17B4''" demo_digest] u s v
  have "verify_unit_authenticity demo_digest demo_tested ''UNIT-3F2A9C0D17B4''
       = Inr [(''verified'', JBool True),
              (''message'', JStr ''Unit verified and authentic''),
              (''unit_id'', JStr ''UNIT-3F2A9C0D17B4''),
              (''total_records'', JInt 2),
              (''current_status'', JStr ''rejected''),
              (''blockchain_valid'', JBool True)]"
    by simp
  moreover from verify_unit_verdict[OF w, of "''UNIT-000000000000''" demo_digest] n
  have "verify_unit_authenticity demo_digest demo_tested ''UNIT-000000000000''
       = Inr [(''verified'', JBool False),
              (''message'', JStr ''Unit ID not found in blockchain''),
              (''unit_id'', JStr ''UNIT-000000000000'')]"
    by simp
  ultimately show ?thesis using w u n by blast
qed

lemma demo_note_seal:
  "mine_pending_transactions demo_digest ''2024-01-01T09:50:00''
     (add_transaction demo_created demo_note) = Some (Inr (demo_noted, Some demo_note_block))"
  by (simp add: mine_pending_transactions_def add_transaction_def get_latest_block_def
      demo_created_def demo_noted_def demo_note_block_def demo_note_def
      mine_block_done mine_block_step demo_eval)

lemma demo_noted_reachable: "reachable demo_digest demo_noted"
  by (rule reach_mine[OF reach_add_transaction[OF demo_created_reachable] demo_note_seal])

lemma demo_noted_history:
  "get_unit_history demo_noted ''UNIT-NOTE''
     = Inr [\<lparr>block_index = 1, block_hash = ''000c'', transaction = JObj demo_note\<rparr>]"
  by (simp add: get_unit_history_def block_transactions_def demo_noted_def demo_genesis_def
      genesis_data_def demo_note_block_def demo_note_def dict_get_def)

text \<open>
  C8 fails where a unit's last record has no \<^verbatim>\<open>"status"\<close> entry. Such a record is
  accepted by \<^verbatim>\<open>add_transaction\<close> and sealed; \<^verbatim>\<open>get_unit_history\<close> finds it, and
  \<^verbatim>\<open>verify_unit_authenticity\<close> then raises \<^verbatim>\<open>KeyError\<close> at
  \<^verbatim>\<open>history[-1]["transaction"]["status"]\<close> instead of returning a result. The other
  scans read the status with \<^verbatim>\<open>.get\<close>: the audit trail lists the same record with
  status \<^verbatim>\<open>None\<close>.
\<close>

theorem verify_unit_missing_status_raises:
  "reachable demo_digest demo_noted
   \<and> get_unit_history demo_noted ''UNIT-NOTE''
       = Inr [\<lparr>block_index = 1, block_hash = ''000c'', transaction = JObj demo_note\<rparr>]
   \<and> verify_unit_authenticity demo_digest demo_noted ''UNIT-NOTE'' = Inl KeyError
   \<and> get_audit_trail demo_noted ''2024-01-01'' ''2024-01-02''
       = Inr [[(''block'', JInt 1), (''timestamp'', JNull), (''type'', JStr ''NOTE''),
               (''unit_id'', JStr ''UNIT-NOTE''), (''status'', JNull),
               (''block_hash'', JStr ''000c'')]]"
proof -
  have "verify_unit_authenticity demo_digest demo_noted ''UNIT-NOTE'' = Inl KeyError"
    by (simp add: verify_unit_authenticity_def demo_noted_history Let_def)
      (simp add: demo_note_def)
  moreover have "get_audit_trail demo_noted ''2024-01-01'' ''2024-01-02''
       = Inr [[(''block'', JInt 1), (''timestamp'', JNull), (''type'', JStr ''NOTE''),
               (''unit_id'', JStr ''UNIT-NOTE''), (''status'', JNull),
               (''block_hash'', JStr ''000c'')]]"
    by (simp add: get_audit_trail_def block_transactions_def audit_record_def demo_noted_def
        demo_genesis_def genesis_data_def demo_note_block_def demo_note_def dict_get_def Let_def)
  ultimately show ?thesis
    using demo_noted_reachable demo_noted_history by blast
qed

subsection \<open>The audit trail\<close>

lemma audit_record_dict: "is_dict t \<Longrightarrow> audit_record b t = Inr (annotate b t)"
  by (simp add: audit_record_def annotate_def py_get_dict)

lemma get_audit_trail_typed:
  assumes "chain_well_typed L"
  shows "get_audit_trail L start_date end_date = Inr (audit_by_block_time L start_date end_date)"
proof -
  let ?in = "\<lambda>b. start_date \<le> timestamp b \<and> timestamp b \<le> end_date"
  let ?inner = "\<lambda>block t audit_records.
      bind_err (audit_record block t) (\<lambda>r. Inr (audit_records @ [r]))"
  let ?out = "\<lambda>b. map (annotate b) (filter (\<lambda>t. ?in b) (block_records b))"
  have inner: "for_each (?inner b) ts acc = Inr (acc @ map (annotate b) ts)"
    if "list_all is_dict ts" for b ts acc
  proof -
    have "for_each (?inner b) ts acc = Inr (acc @ concat (map (\<lambda>t. [annotate b t]) ts))"
      using that by (intro for_each_appends) (simp add: list_all_iff audit_record_dict)
    then show ?thesis by (simp add: concat_map_singleton)
  qed
  have "get_audit_trail L start_date end_date = Inr ([] @ concat (map ?out (chain L)))"
    unfolding get_audit_trail_def
  proof (rule for_each_appends)
    fix b acc assume "b \<in> set (chain L)"
    then have wt: "block_well_typed b" using assms by (rule chain_well_typed_block[rotated])
    show "(let block_time = timestamp b in
           if start_date \<le> block_time \<and> block_time \<le> end_date
           then bind_err (block_transactions b) (\<lambda>ts. for_each (?inner b) ts acc)
           else Inr acc) = Inr (acc @ ?out b)"
      using block_transactions_typed[OF wt] by (simp add: inner Let_def)
  qed
  also have "concat (map ?out (chain L)) = audit_by_block_time L start_date end_date"
    unfolding audit_by_block_time_def
    by (simp add: chain_records_select[where f = "\<lambda>(b, t). annotate b t"
          and P = "\<lambda>(b, t). ?in b"])
  finally show ?thesis by simp
qed

lemma demo_block_fields:
  "timestamp demo_block = ''2024-01-02T08:00:01''" "index demo_block = 1"
  "hash demo_block = ''00f8''"
  by (simp_all add: demo_block_def)

text \<open>
  C5, as stated, fails: \<^verbatim>\<open>get_audit_trail\<close> compares the bounds with the timestamp of
  the block, not of the record. The COLLECTION record of the run was created at 10:00 on
  1 January and sealed the next morning; asked for exactly its own timestamp, the audit
  trail is empty.
\<close>

theorem audit_trail_record_time_counterexample:
  "within ''2024-01-01T10:00:00'' ''2024-01-01T10:00:00''
     (field (JObj demo_collection) ''timestamp'')
   \<and> (demo_block, JObj demo_collection) \<in> set (chain_records demo_tested)
   \<and> audit_by_record_time demo_tested ''2024-01-01T10:00:00'' ''2024-01-01T10:00:00''
       = [annotate demo_block (JObj demo_collection)]
   \<and> get_audit_trail demo_tested ''2024-01-01T10:00:00'' ''2024-01-01T10:00:00'' = Inr []"
proof -
  have "get_audit_trail demo_tested ''2024-01-01T10:00:00'' ''2024-01-01T10:00:00'' = Inr []"
    by (simp add: get_audit_trail_typed[OF demo_tested_well_typed] audit_by_block_time_def
        demo_tested_records demo_block_fields)
  moreover have
    "audit_by_record_time demo_tested ''2024-01-01T10:00:00'' ''2024-01-01T10:00:00''
       = [annotate demo_block (JObj demo_collection)]"
    by (simp add: audit_by_record_time_def demo_tested_records demo_fields within_def)
  ultimately show ?thesis
    by (simp add: demo_tested_records demo_fields within_def)
qed

text \<open>
  C5, amended. On a ledger whose blocks hold lists of dicts, \<^verbatim>\<open>get_audit_trail\<close> returns,
  in chain order, one entry for every record of every block whose block timestamp lies
  in \<open>[start, end]\<close> (bounds included, compared as strings); the entry gives the block's
  index and hash and the record's timestamp, type, unit id and status.
\<close>

theorem audit_trail_by_block_time:
  assumes "chain_well_typed L"
  shows "get_audit_trail L start_date end_date
           = Inr (map (\<lambda>(b, t). annotate b t)
                    (filter (\<lambda>(b, t). start_date \<le> timestamp b \<and> timestamp b \<le> end_date)
                       (chain_records L)))"
  using get_audit_trail_typed[OF assms] by (simp add: audit_by_block_time_def)

theorem audit_trail_by_block_time_witness:
  "chain_well_typed demo_tested
   \<and> get_audit_trail demo_tested ''2024-01-02'' ''2024-01-03''
       = Inr [[(''block'', JInt 1), (''timestamp'', JStr ''2024-01-01T10:00:00''),
               (''type'', JStr ''COLLECTION''), (''unit_id'', JStr ''UNIT-3F2A9C0D17B4''),
               (''status'', JStr ''collected''), (''block_hash'', JStr ''00f8'')],
              [(''block'', JInt 1), (''timestamp'', JStr ''2024-01-02T08:00:00''),
               (''type'', JStr ''TESTING''), (''unit_id'', JStr ''UNIT-3F2A9C0D17B4''),
               (''status'', JStr ''rejected''), (''block_hash'', JStr ''00f8'')]]"
  using audit_trail_by_block_time[OF demo_tested_well_typed, of "''2024-01-02''" "''2024-01-03''"]
    demo_tested_well_typed
  by (simp add: demo_tested_records demo_block_fields annotate_def demo_fields)

subsection \<open>Units by status\<close>

lemma py_set_add_typed:
  "str_or_none x \<Longrightarrow> py_set_add xs x = Inr (if x \<in> set xs then xs else xs @ [x])"
  by (cases x) simp_all

text \<open>A loop whose body adds elements to a duplicate-free accumulator.\<close>

lemma for_each_collects:
  assumes "\<And>x acc. x \<in> set xs \<Longrightarrow>
      \<exists>acc'. body x acc = Inr acc' \<and> set acc' = set acc \<union> out x
             \<and> (distinct acc \<longrightarrow> distinct acc')"
  shows "\<exists>acc'. for_each body xs acc = Inr acc' \<and> set acc' = set acc \<union> (\<Union>x\<in>set xs. out x)
             \<and> (distinct acc \<longrightarrow> distinct acc')"
  using assms
proof (induction xs arbitrary: acc)
  case Nil
  then show ?case by simp
next
  case (Cons x xs)
  from Cons.prems[of x acc] obtain a where
    a: "body x acc = Inr a" "set a = set acc \<union> out x" "distinct acc \<longrightarrow> distinct a"
    by auto
  from Cons.IH[of a] Cons.prems obtain a' where
    a': "for_each body xs a = Inr a'" "set a' = set a \<union> (\<Union>x\<in>set xs. out x)"
      "distinct a \<longrightarrow> distinct a'"
    by (metis list.set_intros(2))
  from a a' show ?case by auto
qed

lemma unit_ids_typed_record:
  "unit_ids_typed L \<Longrightarrow> b \<in> set (chain L) \<Longrightarrow> t \<in> set (block_records b) \<Longrightarrow>
   str_or_none (field t ''unit_id'')"
  by (auto simp: unit_ids_typed_def chain_records_def list_all_iff)

lemma set_chain_records:
  "set (chain_records L) = {(b, t). b \<in> set (chain L) \<and> t \<in> set (block_records b)}"
  by (auto simp: chain_records_def)

text \<open>
  C6. On a ledger whose blocks hold lists of dicts with string (or absent) unit ids,
  \<^verbatim>\<open>get_units_by_status\<close> returns, without duplicates, exactly the unit ids of the records
  whose status is the given one: any record at that status counts, whether or not it is
  the unit's latest. (In the run, the unit is listed under \<^verbatim>\<open>"collected"\<close> although its
  latest record says \<^verbatim>\<open>"rejected"\<close>.)
\<close>

theorem units_by_status_any_record:
  assumes "chain_well_typed L" and "unit_ids_typed L"
  shows "\<exists>units. get_units_by_status L status = Inr units \<and> distinct units
     \<and> set units = {field t ''unit_id'' | b t.
                       (b, t) \<in> set (chain_records L) \<and> field t ''status'' = JStr status}"
proof -
  let ?inner = "\<lambda>t units.
      bind_err (py_get t ''status'')
        (\<lambda>v. if v = JStr status then bind_err (py_get t ''unit_id'') (py_set_add units)
              else Inr units)"
  let ?one = "\<lambda>t. if field t ''status'' = JStr status then {field t ''unit_id''} else {}"
  let ?out = "\<lambda>b. \<Union>t\<in>set (block_records b). ?one t"
  have "\<exists>acc'. for_each
          (\<lambda>block units. bind_err (block_transactions block) (\<lambda>ts. for_each ?inner ts units))
          (chain L) [] = Inr acc'
        \<and> set acc' = set [] \<union> (\<Union>b\<in>set (chain L). ?out b)
        \<and> (distinct ([] :: json list) \<longrightarrow> distinct acc')"
  proof (rule for_each_collects)
    fix b acc assume b: "b \<in> set (chain L)"
    then have wt: "block_well_typed b" using assms(1) by (rule chain_well_typed_block[rotated])
    have "\<exists>acc'. for_each ?inner (block_records b) acc = Inr acc'
          \<and> set acc' = set acc \<union> (\<Union>t\<in>set (block_records b). ?one t)
          \<and> (distinct acc \<longrightarrow> distinct acc')"
    proof (rule for_each_collects)
      fix t a assume t: "t \<in> set (block_records b)"
      with block_transactions_typed(2)[OF wt] have d: "is_dict t"
        by (simp add: list_all_iff)
      from unit_ids_typed_record[OF assms(2) b t] have s: "str_or_none (field t ''unit_id'')" .
      show "\<exists>acc'. ?inner t a = Inr acc' \<and> set acc' = set a \<union> ?one t
             \<and> (distinct a \<longrightarrow> distinct acc')"
        by (auto simp: py_get_dict[OF d] py_set_add_typed[OF s])
    qed
    then show "\<exists>acc'. bind_err (block_transactions b) (\<lambda>ts. for_each ?inner ts acc) = Inr acc'
          \<and> set acc' = set acc \<union> ?out b \<and> (distinct acc \<longrightarrow> distinct acc')"
      by (simp add: block_transactions_typed(1)[OF wt])
  qed
  then obtain units where
    r: "get_units_by_status L status = Inr units" and d: "distinct units"
    and s: "set units = (\<Union>b\<in>set (chain L). ?out b)"
    unfolding get_units_by_status_def by auto
  have "(\<Union>b\<in>set (chain L). ?out b)
      = {field t ''unit_id'' | b t.
           (b, t) \<in> set (chain_records L) \<and> field t ''status'' = JStr status}"
    by (auto simp: set_chain_records split: if_splits)
  with r d s show ?thesis by simp
qed

lemma demo_tested_unit_ids: "unit_ids_typed demo_tested"
  by (simp add: unit_ids_typed_def demo_tested_records demo_fields)

theorem units_by_status_any_record_witness:
  "chain_well_typed demo_tested \<and> unit_ids_typed demo_tested
   \<and> (\<exists>units. get_units_by_status demo_tested ''collected'' = Inr units \<and> distinct units
        \<and> set units = {JStr ''UNIT-3F2A9C0D17B4''})"
proof -
  have "{field t ''unit_id'' | b t.
           (b, t) \<in> set (chain_records demo_tested) \<and> field t ''status'' = JStr ''collected''}
        = {JStr ''UNIT-3F2A9C0D17B4''}"
    by (auto simp: demo_tested_records demo_fields
        intro!: exI[of _ demo_block] exI[of _ "JObj demo_collection"])
  with units_by_status_any_record[OF demo_tested_well_typed demo_tested_unit_ids,
      of "''collected''"]
  show ?thesis using demo_tested_well_typed demo_tested_unit_ids by simp
qed

subsection \<open>The serialisation is injective\<close>

lemma hex_digit_inj: "hex_digit a = hex_digit b \<Longrightarrow> a mod 16 = b mod 16"
proof -
  have d: "distinct ''0123456789abcdef''" by simp
  assume "hex_digit a = hex_digit b"
  then show ?thesis
    unfolding hex_digit_def using d
    by (subst (asm) nth_eq_iff_index_eq) simp_all
qed

lemma hex_pair_inj:
  assumes "hex_digit (a div 16) = hex_digit (b div 16)" and "hex_digit a = hex_digit b"
    and "a < 256" and "b < 256"
  shows "a = b"
proof -
  from hex_digit_inj[OF assms(1)] assms(3,4) have "a div 16 = b div 16" by simp
  moreover from hex_digit_inj[OF assms(2)] have "a mod 16 = b mod 16" .
  ultimately show ?thesis by (metis div_mult_mod_eq)
qed

lemma below_10: "n < 10 \<Longrightarrow> n \<in> {0, 1, 2, 3, 4, 5, 6, 7, 8, 9 :: nat}"
  by auto

lemma below_16:
  "n < 16 \<Longrightarrow> n \<in> {0, 1, 2, 3, 4, 5, 6, 7, 8, 9, 10, 11, 12, 13, 14, 15 :: nat}"
  by simp arith

lemma hex_digit_decimal: "n < 10 \<Longrightarrow> of_char (hex_digit n) = 48 + n"
  by (drule below_10) (auto simp: hex_digit_def)

lemma hex_digit_decimal_char: "n < 10 \<Longrightarrow> hex_digit n \<in> set ''0123456789''"
  by (drule below_10) (auto simp: hex_digit_def)

lemma dec_value_snoc: "dec_value (s @ [c]) = 10 * dec_value s + (of_char c - 48)"
  by (simp add: dec_value_def)

lemma dec_value_nat_to_dec: "dec_value (nat_to_dec n) = n"
proof (induction n rule: nat_to_dec.induct)
  case (1 n)
  show ?case
  proof (cases "n < 10")
    case True
    then show ?thesis
      by (simp add: nat_to_dec_digit dec_value_def hex_digit_decimal)
  next
    case False
    then have "dec_value (nat_to_dec (n div 10)) = n div 10" using 1 by simp
    with False show ?thesis
      by (simp add: nat_to_dec_more dec_value_snoc hex_digit_decimal)
  qed
qed

lemma nat_to_dec_inj: "nat_to_dec a = nat_to_dec b \<Longrightarrow> a = b"
  by (metis dec_value_nat_to_dec)

lemma nat_to_dec_chars: "set (nat_to_dec n) \<subseteq> set ''0123456789''"
proof (induction n rule: nat_to_dec.induct)
  case (1 n)
  show ?case
  proof (cases "n < 10")
    case True
    then show ?thesis
      using hex_digit_decimal_char[of n] by (simp add: nat_to_dec_digit)
  next
    case False
    then have "set (nat_to_dec (n div 10)) \<subseteq> set ''0123456789''" using 1 by simp
    moreover have "hex_digit (n mod 10) \<in> set ''0123456789''"
      by (rule hex_digit_decimal_char) simp
    ultimately show ?thesis using False
      by (simp add: nat_to_dec_more)
  qed
qed

lemma nat_to_dec_nonempty: "nat_to_dec n \<noteq> []"
  by (cases "n < 10") (simp_all add: nat_to_dec_digit nat_to_dec_more)

lemma int_str_chars: "set (int_str i) \<subseteq> set ''-0123456789''"
proof (cases "i < 0")
  case True
  then have "set (int_str i) = insert CHR ''-'' (set (nat_to_dec (nat (- i))))"
    by (simp add: int_str_def)
  also have "\<dots> \<subseteq> insert CHR ''-'' (set ''0123456789'')"
    using nat_to_dec_chars by (rule insert_mono)
  also have "\<dots> = set (CHR ''-'' # ''0123456789'')"
    by (rule list.set(2)[symmetric])
  finally show ?thesis .
next
  case False
  then have "set (int_str i) = set (nat_to_dec (nat i))"
    by (simp add: int_str_def)
  also have "\<dots> \<subseteq> set ''0123456789''"
    by (rule nat_to_dec_chars)
  also have "\<dots> \<subseteq> set (CHR ''-'' # ''0123456789'')"
    by (rule set_subset_Cons)
  finally show ?thesis .
qed

lemma int_str_nonempty: "int_str i \<noteq> []"
  by (simp add: int_str_def nat_to_dec_nonempty)

lemma int_str_inj: "int_str i = int_str j \<Longrightarrow> i = j"
proof -
  assume e: "int_str i = int_str j"
  have neg: "hd (nat_to_dec n) \<noteq> CHR ''-''" for n
    using nat_to_dec_chars[of n] nat_to_dec_nonempty[of n]
    by (cases "nat_to_dec n") auto
  show ?thesis
  proof (cases "i < 0"; cases "j < 0")
    assume "i < 0" "j < 0"
    with e have "nat (- i) = nat (- j)" by (auto simp: int_str_def dest: nat_to_dec_inj)
    with \<open>i < 0\<close> \<open>j < 0\<close> show ?thesis by simp
  next
    assume "i < 0" "\<not> j < 0"
    with e have "nat_to_dec (nat j) = CHR ''-'' # nat_to_dec (nat (- i))"
      by (simp add: int_str_def)
    then have "hd (nat_to_dec (nat j)) = CHR ''-''" by simp
    with neg[of "nat j"] show ?thesis by blast
  next
    assume "\<not> i < 0" "j < 0"
    with e have "nat_to_dec (nat i) = CHR ''-'' # nat_to_dec (nat (- j))"
      by (simp add: int_str_def)
    then have "hd (nat_to_dec (nat i)) = CHR ''-''" by simp
    with neg[of "nat i"] show ?thesis by blast
  next
    assume "\<not> i < 0" "\<not> j < 0"
    with e have "nat i = nat j" by (auto simp: int_str_def dest: nat_to_dec_inj)
    with \<open>\<not> i < 0\<close> \<open>\<not> j < 0\<close> show ?thesis by simp
  qed
qed

lemma hex_value_hex_digit: "hex_value (hex_digit m) = m mod 16"
proof -
  have "m mod 16 < 16" by simp
  from below_16[OF this] show ?thesis
    unfolding hex_digit_def hex_value_def by (elim insertE emptyE) simp_all
qed

lemma hex_value_pair:
  assumes "n < 256"
  shows "16 * hex_value (hex_digit (n div 16)) + hex_value (hex_digit n) = n"
proof -
  from assms have "n div 16 mod 16 = n div 16" by simp
  then show ?thesis by (simp add: hex_value_hex_digit)
qed

lemma decode_char_encode: "decode_char (py_encode_char c @ X) = of_char c"
proof -
  have "(of_char c :: nat) < 256" by simp
  note h = hex_value_pair[OF this]
  show ?thesis
    unfolding py_encode_char_def Let_def decode_char_def
    by (simp add: h)
qed

lemma py_encode_char_prefix:
  assumes "py_encode_char c @ X = py_encode_char d @ Y"
  shows "c = d"
proof -
  have "(of_char c :: nat) = decode_char (py_encode_char c @ X)"
    by (simp add: decode_char_encode)
  also have "\<dots> = of_char d"
    unfolding assms by (rule decode_char_encode)
  finally show ?thesis by simp
qed

lemma dumps_list_map: "dumps_list xs = map dumps xs"
  by (induction xs) simp_all

lemma dumps_items_map: "dumps_items kvs = map (\<lambda>(k, v). (k, dumps v)) kvs"
  by (induction kvs) auto

lemma canon_list_map: "canon_list xs = map canon xs"
  by (induction xs) simp_all

lemma canon_items_map: "canon_items kvs = map (\<lambda>(k, v). (k, canon v)) kvs"
  by (induction kvs) auto

lemma wf_json_list_all: "wf_json_list xs \<longleftrightarrow> (\<forall>x\<in>set xs. wf_json x)"
  by (induction xs) simp_all

lemma wf_json_items_all: "wf_json_items kvs \<longleftrightarrow> (\<forall>(k, v)\<in>set kvs. wf_json v)"
  by (induction kvs) auto

lemma insort_key_map_values:
  "insort_key fst (k, f v) (map (\<lambda>(k, v). (k, f v)) xs)
     = map (\<lambda>(k, v). (k, f v)) (insort_key fst (k, v) xs)"
  by (induction xs) auto

lemma sort_key_map_values:
  "sort_key fst (map (\<lambda>(k, v). (k, f v)) kvs) = map (\<lambda>(k, v). (k, f v)) (sort_key fst kvs)"
  by (induction kvs) (auto simp: insort_key_map_values)

lemma dumps_JObj:
  "dumps (JObj kvs)
     = ''{'' @ join '', '' (map (\<lambda>(k, v). py_encode_basestring_ascii k @ '': '' @ dumps v)
                              (sort_key fst kvs)) @ ''}''"
  by (simp add: dumps_items_map sort_key_map_values) (simp add: comp_def case_prod_unfold)

lemma canon_JObj: "canon (JObj kvs) = JObj (map (\<lambda>(k, v). (k, canon v)) (sort_key fst kvs))"
  by (simp add: canon_items_map sort_key_map_values)

lemma py_encode_char_nonempty: "py_encode_char c \<noteq> []"
  by (simp add: py_encode_char_def Let_def)

lemma py_encode_char_not_quote: "hd (py_encode_char c) \<noteq> CHR 0x22"
  by (simp add: py_encode_char_def Let_def)

lemma encoded_string_body:
  "concat (map py_encode_char s) @ CHR 0x22 # r = concat (map py_encode_char s') @ CHR 0x22 # r'
   \<Longrightarrow> s = s' \<and> r = r'"
proof (induction s arbitrary: s')
  case Nil
  show ?case
  proof (cases s')
    case Nil
    with Nil.prems show ?thesis by simp
  next
    case (Cons d ds)
    with Nil.prems have "CHR 0x22 = hd (py_encode_char d @ concat (map py_encode_char ds) @ CHR 0x22 # r')"
      by (metis append.assoc concat.simps(2) list.map(2) list.sel(1) append_Nil concat.simps(1) list.map(1))
    then show ?thesis
      using py_encode_char_nonempty[of d] py_encode_char_not_quote[of d] by simp
  qed
next
  case (Cons c cs)
  show ?case
  proof (cases s')
    case Nil
    with Cons.prems have "hd (py_encode_char c @ concat (map py_encode_char cs) @ CHR 0x22 # r) = CHR 0x22"
      by simp
    then show ?thesis
      using py_encode_char_nonempty[of c] py_encode_char_not_quote[of c] by simp
  next
    case (Cons d ds)
    with Cons.prems have e: "py_encode_char c @ (concat (map py_encode_char cs) @ CHR 0x22 # r)
        = py_encode_char d @ (concat (map py_encode_char ds) @ CHR 0x22 # r')"
      by simp
    from py_encode_char_prefix[OF e] have cd: "c = d" .
    with e have "concat (map py_encode_char cs) @ CHR 0x22 # r
        = concat (map py_encode_char ds) @ CHR 0x22 # r'"
      by simp
    from Cons.IH[OF this] cd Cons show ?thesis by simp
  qed
qed

lemma encoded_string_reads_back:
  "py_encode_basestring_ascii s @ r = py_encode_basestring_ascii s' @ r' \<Longrightarrow> s = s' \<and> r = r'"
  using encoded_string_body[of s r s' r'] by (simp add: py_encode_basestring_ascii_def)

lemma plain_char_not_structural:
  assumes "plain_char c"
  shows "c \<noteq> CHR 0x22" "c \<noteq> CHR ''[''" "c \<noteq> CHR ''{''" "c \<notin> set '',]}''"
  using assms by (auto simp: plain_char_def)

lemma plain_digits: "c \<in> set ''-0123456789'' \<Longrightarrow> plain_char c"
  by (auto simp: plain_char_def)

lemma plain_float: "c \<in> set ''0123456789+-.eINafinty'' \<Longrightarrow> plain_char c"
  by (auto simp: plain_char_def)

lemma atom_text:
  assumes "is_atom v" and "wf_json v"
  shows "dumps v \<noteq> [] \<and> list_all plain_char (dumps v)"
proof (cases v)
  case (JInt i)
  have "\<forall>c\<in>set (int_str i). plain_char c"
    using int_str_chars[of i] plain_digits by blast
  with JInt int_str_nonempty[of i] show ?thesis
    by (simp add: list_all_iff)
next
  case (JFloat r)
  with assms(2) have "r \<noteq> []" and "\<forall>c\<in>set r. c \<in> set ''0123456789+-.eINafinty''"
    by (simp_all add: float_text_def list_all_iff)
  then have "r \<noteq> []" and "\<forall>c\<in>set r. plain_char c"
    using plain_float by blast+
  with JFloat show ?thesis
    by (simp add: list_all_iff)
qed (use assms in \<open>simp_all add: plain_char_def\<close>)

lemma int_str_no_letter:
  "CHR ''l'' \<notin> set (int_str i)" "CHR ''t'' \<notin> set (int_str i)" "CHR ''f'' \<notin> set (int_str i)"
proof -
  have "CHR ''l'' \<notin> set ''-0123456789''" "CHR ''t'' \<notin> set ''-0123456789''"
    "CHR ''f'' \<notin> set ''-0123456789''"
    by simp_all
  with int_str_chars[of i] show "CHR ''l'' \<notin> set (int_str i)" "CHR ''t'' \<notin> set (int_str i)"
    "CHR ''f'' \<notin> set (int_str i)"
    by blast+
qed

lemma int_str_not_word:
  "int_str i \<noteq> ''null''" "int_str i \<noteq> ''true''" "int_str i \<noteq> ''false''"
proof -
  show "int_str i \<noteq> ''null''"
  proof
    assume "int_str i = ''null''"
    then have "CHR ''l'' \<in> set (int_str i)" by simp
    with int_str_no_letter(1) show False by blast
  qed
  show "int_str i \<noteq> ''true''"
  proof
    assume "int_str i = ''true''"
    then have "CHR ''t'' \<in> set (int_str i)" by simp
    with int_str_no_letter(2) show False by blast
  qed
  show "int_str i \<noteq> ''false''"
  proof
    assume "int_str i = ''false''"
    then have "CHR ''f'' \<in> set (int_str i)" by simp
    with int_str_no_letter(3) show False by blast
  qed
qed

lemma int_str_not_float: "\<not> float_text (int_str i)"
proof
  assume "float_text (int_str i)"
  then have "\<exists>c\<in>set (int_str i). c \<notin> set ''-0123456789''"
    by (simp only: float_text_def list_ex_iff)
  with int_str_chars[of i] show False by blast
qed

lemma word_not_float:
  "\<not> float_text ''null''" "\<not> float_text ''true''" "\<not> float_text ''false''"
  by (simp_all add: float_text_def)

lemma int_str_eq_iff [simp]: "int_str i = int_str j \<longleftrightarrow> i = j"
  using int_str_inj by blast

lemmas atom_text_distinct =
  int_str_not_word int_str_not_word[symmetric] word_not_float int_str_not_float

lemma atom_dumps_inj:
  assumes "is_atom v" and "is_atom v'" and "wf_json v" and "wf_json v'"
    and "dumps v = dumps v'"
  shows "v = v'"
  using assms
  by (cases v; cases v') (auto simp: atom_text_distinct split: if_splits)

text \<open>Two atoms followed by delimiters: the texts end where the first delimiter stands.\<close>

lemma plain_prefix_unique:
  assumes "list_all plain_char t" and "list_all plain_char t'"
    and "delim r" and "delim r'" and "t @ r = t' @ r'"
  shows "t = t' \<and> r = r'"
  using assms
proof (induction t arbitrary: t')
  case Nil
  show ?case
  proof (cases t')
    case Nil
    with Nil.prems show ?thesis by simp
  next
    case (Cons c cs)
    with Nil.prems have "r = c # cs @ r'" and "plain_char c" by simp_all
    with Nil.prems(3) plain_char_not_structural(4)[of c] show ?thesis
      by (simp add: delim_def)
  qed
next
  case (Cons a t)
  show ?case
  proof (cases t')
    case Nil
    with Cons.prems have "r' = a # t @ r" and "plain_char a" by simp_all
    with Cons.prems(4) plain_char_not_structural(4)[of a] show ?thesis
      by (simp add: delim_def)
  next
    case (Cons c cs)
    with Cons.prems Cons.IH[of cs] show ?thesis by simp
  qed
qed

lemma dumps_head:
  assumes "wf_json v"
  shows "dumps v \<noteq> [] \<and> tag_of_char (hd (dumps v)) = tag v \<and> hd (dumps v) \<notin> set '',]}''"
proof (cases "is_atom v")
  case True
  from atom_text[OF True assms] have n: "dumps v \<noteq> []" and p: "plain_char (hd (dumps v))"
    by (cases "dumps v"; simp)+
  from True have "tag v = 0" by (cases v) simp_all
  with n p plain_char_not_structural[OF p] show ?thesis
    by (simp add: tag_of_char_def)
next
  case False
  then show ?thesis
    by (cases v) (simp_all add: tag_of_char_def py_encode_basestring_ascii_def)
qed

lemma same_tag:
  assumes "wf_json v" and "wf_json v'" and "dumps v @ r = dumps v' @ r'"
  shows "tag v = tag v'"
proof -
  from dumps_head[OF assms(1)] dumps_head[OF assms(2)] assms(3)
  have "hd (dumps v) = hd (dumps v')"
    by (metis hd_append2)
  with dumps_head[OF assms(1)] dumps_head[OF assms(2)] show ?thesis by metis
qed

lemma join_Cons:
  "join sep (x # xs) = x @ (if xs = [] then [] else sep @ join sep xs)"
  by (cases xs) simp_all

lemma reads_backD:
  assumes "reads_back v" and "wf_json v" and "wf_json v'" and "delim r" and "delim r'"
    and "dumps v @ r = dumps v' @ r'"
  shows "canon v = canon v'" and "r = r'"
  using assms unfolding reads_back_def by blast+

lemma delim_simps [simp]:
  "delim []" "delim (CHR '','' # r)" "delim (CHR '']'' # r)" "delim (CHR ''}'' # r)"
  by (simp_all add: delim_def)

text \<open>The elements of a list, up to the closing bracket.\<close>

lemma list_body_reads_back:
  assumes "\<forall>x\<in>set xs. reads_back x"
    and "\<forall>x\<in>set xs. wf_json x" and "\<forall>x\<in>set xs'. wf_json x"
    and "join '', '' (map dumps xs) @ CHR '']'' # r = join '', '' (map dumps xs') @ CHR '']'' # r'"
  shows "map canon xs = map canon xs' \<and> r = r'"
  using assms
proof (induction xs arbitrary: xs')
  case Nil
  show ?case
  proof (cases xs')
    case Nil
    with Nil.prems show ?thesis by simp
  next
    case (Cons y ys)
    with Nil.prems(3) have "wf_json y" by simp
    from dumps_head[OF this] obtain c cs where d: "dumps y = c # cs" and c: "c \<notin> set '',]}''"
      by (cases "dumps y") auto
    from Nil.prems(4) Cons d have "c = CHR '']''"
      by (simp add: join_Cons)
    with c show ?thesis by simp
  qed
next
  case (Cons x xs)
  show ?case
  proof (cases xs')
    case Nil
    from Cons.prems(2) have "wf_json x" by simp
    from dumps_head[OF this] obtain c cs where d: "dumps x = c # cs" and c: "c \<notin> set '',]}''"
      by (cases "dumps x") auto
    from Cons.prems(4) Nil d have "c = CHR '']''"
      by (simp add: join_Cons)
    with c show ?thesis by simp
  next
    case (Cons y ys)
    let ?R = "(if xs = [] then [] else '', '' @ join '', '' (map dumps xs)) @ CHR '']'' # r"
    let ?R' = "(if ys = [] then [] else '', '' @ join '', '' (map dumps ys)) @ CHR '']'' # r'"
    from Cons.prems(4) Cons have e: "dumps x @ ?R = dumps y @ ?R'"
      by (simp add: join_Cons)
    have rb: "reads_back x" and wx: "wf_json x" and wy: "wf_json y"
      using Cons.prems(1,2,3) Cons by simp_all
    have dR: "delim ?R" "delim ?R'" by simp_all
    from reads_backD[OF rb wx wy dR e] have cx: "canon x = canon y" and R: "?R = ?R'" .
    show ?thesis
    proof (cases "xs = []")
      case True
      with R have "ys = []" and "r = r'" by (auto split: if_splits)
      with True cx Cons show ?thesis by simp
    next
      case False
      with R have ne: "ys \<noteq> []" by (auto split: if_splits)
      with False R have
        "join '', '' (map dumps xs) @ CHR '']'' # r = join '', '' (map dumps ys) @ CHR '']'' # r'"
        by simp
      with Cons.IH[of ys] Cons.prems(1,2,3) Cons have "map canon xs = map canon ys \<and> r = r'"
        by simp
      with cx Cons show ?thesis by simp
    qed
  qed
qed

text \<open>The entries of a dict, up to the closing brace.\<close>

lemma dict_body_reads_back:
  assumes "\<forall>(k, v)\<in>set S. reads_back v"
    and "\<forall>(k, v)\<in>set S. wf_json v" and "\<forall>(k, v)\<in>set S'. wf_json v"
    and "join '', '' (map (\<lambda>(k, v). py_encode_basestring_ascii k @ '': '' @ dumps v) S)
           @ CHR ''}'' # r
         = join '', '' (map (\<lambda>(k, v). py_encode_basestring_ascii k @ '': '' @ dumps v) S')
           @ CHR ''}'' # r'"
  shows "map (\<lambda>(k, v). (k, canon v)) S = map (\<lambda>(k, v). (k, canon v)) S' \<and> r = r'"
  using assms
proof (induction S arbitrary: S')
  case Nil
  show ?case
  proof (cases S')
    case Nil
    with Nil.prems show ?thesis by simp
  next
    case (Cons p ps)
    with Nil.prems(4) show ?thesis
      by (cases p) (simp add: join_Cons py_encode_basestring_ascii_def)
  qed
next
  case (Cons q S)
  obtain k v where q: "q = (k, v)" by (cases q)
  show ?case
  proof (cases S')
    case Nil
    with Cons.prems(4) q show ?thesis
      by (simp add: join_Cons py_encode_basestring_ascii_def)
  next
    case (Cons p ps)
    obtain k' v' where p: "p = (k', v')" by (cases p)
    let ?item = "\<lambda>(k, v). py_encode_basestring_ascii k @ '': '' @ dumps v"
    let ?R = "(if S = [] then [] else '', '' @ join '', '' (map ?item S)) @ CHR ''}'' # r"
    let ?R' = "(if ps = [] then [] else '', '' @ join '', '' (map ?item ps)) @ CHR ''}'' # r'"
    from Cons.prems(4) Cons q p have
      "py_encode_basestring_ascii k @ ('': '' @ dumps v @ ?R)
         = py_encode_basestring_ascii k' @ ('': '' @ dumps v' @ ?R')"
      by (simp add: join_Cons split del: if_split cong: if_cong)
    from encoded_string_reads_back[OF this] have kk: "k = k'" and e: "dumps v @ ?R = dumps v' @ ?R'"
      by simp_all
    have rb: "reads_back v" and wv: "wf_json v" and wv': "wf_json v'"
      using Cons.prems(1,2,3) Cons q p by simp_all
    have dR: "delim ?R" "delim ?R'" by simp_all
    from reads_backD[OF rb wv wv' dR e] have cv: "canon v = canon v'" and R: "?R = ?R'" .
    show ?thesis
    proof (cases "S = []")
      case True
      with R have "ps = []" and "r = r'" by (auto split: if_splits)
      with True cv kk Cons q p show ?thesis by simp
    next
      case False
      with R have ne: "ps \<noteq> []" by (auto split: if_splits)
      with False R have
        "join '', '' (map ?item S) @ CHR ''}'' # r = join '', '' (map ?item ps) @ CHR ''}'' # r'"
        by simp
      with Cons.IH[of ps] Cons.prems(1,2,3) Cons have
        "map (\<lambda>(k, v). (k, canon v)) S = map (\<lambda>(k, v). (k, canon v)) ps \<and> r = r'"
        by simp
      with cv kk Cons q p show ?thesis by simp
    qed
  qed
qed

lemma tag_cases:
  "tag v = 0 \<longleftrightarrow> is_atom v"
  "tag v = 1 \<longleftrightarrow> (\<exists>s. v = JStr s)"
  "tag v = 2 \<longleftrightarrow> (\<exists>xs. v = JList xs)"
  "tag v = 3 \<longleftrightarrow> (\<exists>kvs. v = JObj kvs)"
  by (cases v; simp)+

lemma atom_reads_back:
  assumes "is_atom v"
  shows "reads_back v"
  unfolding reads_back_def
proof (intro allI impI)
  fix v' r r'
  assume w: "wf_json v" and w': "wf_json v'" and d: "delim r" "delim r'"
    and e: "dumps v @ r = dumps v' @ r'"
  from same_tag[OF w w' e] assms have a': "is_atom v'"
    by (simp add: tag_cases(1)[symmetric])
  from plain_prefix_unique[OF _ _ d e] atom_text[OF assms w] atom_text[OF a' w']
  have "dumps v = dumps v'" and r: "r = r'" by simp_all
  from atom_dumps_inj[OF assms a' w w' this(1)] r show "canon v = canon v' \<and> r = r'"
    by simp
qed

lemma dumps_reads_back: "reads_back v"
proof (induction v)
  case (JStr s)
  show ?case
    unfolding reads_back_def
  proof (intro allI impI)
    fix v' r r'
    assume w: "wf_json (JStr s)" and w': "wf_json v'"
      and e: "dumps (JStr s) @ r = dumps v' @ r'"
    from same_tag[OF w w' e] obtain s' where v': "v' = JStr s'"
      using tag_cases(2)[of v'] by auto
    from e v' encoded_string_reads_back[of s r s' r']
    show "canon (JStr s) = canon v' \<and> r = r'" by simp
  qed
next
  case (JList xs)
  show ?case
    unfolding reads_back_def
  proof (intro allI impI)
    fix v' r r'
    assume w: "wf_json (JList xs)" and w': "wf_json v'"
      and e: "dumps (JList xs) @ r = dumps v' @ r'"
    from same_tag[OF w w' e] obtain xs' where v': "v' = JList xs'"
      using tag_cases(3)[of v'] by auto
    from e v' have
      "join '', '' (map dumps xs) @ CHR '']'' # r = join '', '' (map dumps xs') @ CHR '']'' # r'"
      by (simp add: dumps_list_map)
    moreover from w have "\<forall>x\<in>set xs. wf_json x" by (simp add: wf_json_list_all)
    moreover from w' v' have "\<forall>x\<in>set xs'. wf_json x" by (simp add: wf_json_list_all)
    moreover from JList have "\<forall>x\<in>set xs. reads_back x" by blast
    ultimately have "map canon xs = map canon xs' \<and> r = r'"
      by (intro list_body_reads_back)
    with v' show "canon (JList xs) = canon v' \<and> r = r'"
      by (simp add: canon_list_map)
  qed
next
  case (JObj kvs)
  show ?case
    unfolding reads_back_def
  proof (intro allI impI)
    fix v' r r'
    assume w: "wf_json (JObj kvs)" and w': "wf_json v'"
      and e: "dumps (JObj kvs) @ r = dumps v' @ r'"
    from same_tag[OF w w' e] obtain kvs' where v': "v' = JObj kvs'"
      using tag_cases(4)[of v'] by auto
    let ?S = "sort_key fst kvs" and ?S' = "sort_key fst kvs'"
    let ?item = "\<lambda>(k, v). py_encode_basestring_ascii k @ '': '' @ dumps v"
    from e have "dumps (JObj kvs) @ r = dumps (JObj kvs') @ r'"
      unfolding v' .
    then have
      "join '', '' (map ?item ?S) @ CHR ''}'' # r = join '', '' (map ?item ?S') @ CHR ''}'' # r'"
      unfolding dumps_JObj by simp
    moreover from w have "\<forall>(k, v)\<in>set ?S. wf_json v" by (simp add: wf_json_items_all)
    moreover from w' v' have "\<forall>(k, v)\<in>set ?S'. wf_json v" by (simp add: wf_json_items_all)
    moreover from JObj have "\<forall>(k, v)\<in>set ?S. reads_back v" by fastforce
    ultimately have "map (\<lambda>(k, v). (k, canon v)) ?S = map (\<lambda>(k, v). (k, canon v)) ?S' \<and> r = r'"
      by (intro dict_body_reads_back)
    then have "canon (JObj kvs) = canon (JObj kvs') \<and> r = r'"
      unfolding canon_JObj by simp
    then show "canon (JObj kvs) = canon v' \<and> r = r'"
      unfolding v' .
  qed
qed (simp_all add: atom_reads_back)

text \<open>Two well-formed values with the same serialisation are the same up to key order.\<close>

lemma dumps_injective:
  assumes "wf_json v" and "wf_json v'" and "dumps v = dumps v'"
  shows "canon v = canon v'"
  using reads_backD(1)[OF dumps_reads_back assms(1,2), of "[]" "[]"] assms(3) by simp

lemma calculate_hash_payload: "calculate_hash H b = H (dumps (payload b))"
  by (simp add: calculate_hash_def payload_def)

lemma canon_payload_eq:
  "canon (payload b) = canon (payload b') \<longleftrightarrow>
     index b = index b' \<and> timestamp b = timestamp b'
     \<and> canon (JObj (data b)) = canon (JObj (data b'))
     \<and> previous_hash b = previous_hash b' \<and> nonce b = nonce b'"
  by (auto simp: payload_def)

lemma payload_changed:
  assumes "rehashed m" and "changes m b"
    and "wf_json (payload b)" and "wf_json (payload (mutate m b))"
  shows "dumps (payload (mutate m b)) \<noteq> dumps (payload b)"
proof
  assume "dumps (payload (mutate m b)) = dumps (payload b)"
  from dumps_injective[OF assms(4,3) this] have "canon (payload (mutate m b)) = canon (payload b)" .
  with assms(1,2) show False
    unfolding canon_payload_eq by (cases m) simp_all
qed

lemma rehashed_detected:
  assumes "rehashed m" and "changes m b"
    and "wf_json (payload b)" and "wf_json (payload (mutate m b))"
    and "no_collision H (dumps (payload b)) (dumps (payload (mutate m b)))"
  shows "calculate_hash H (mutate m b) \<noteq> calculate_hash H b"
  using payload_changed[OF assms(1-4)] assms(5)
  by (auto simp: calculate_hash_payload no_collision_def)

subsection \<open>Tampering\<close>

lemma mutate_fields:
  "hash (mutate m b) = (case m of Set_hash v \<Rightarrow> v | _ \<Rightarrow> hash b)"
  "previous_hash (mutate m b) = (case m of Set_previous_hash v \<Rightarrow> v | _ \<Rightarrow> previous_hash b)"
  "calculate_hash H (mutate (Set_hash v) b) = calculate_hash H b"
  by (cases m; simp)+

text \<open>
  C2, as stated, fails: \<^verbatim>\<open>is_chain_valid\<close> starts at index 1 and reads nothing of the
  genesis block but its hash. Overwriting the timestamp of the genesis block of a valid
  chain leaves the chain valid.
\<close>

theorem tamper_genesis_counterexample:
  "is_chain_valid demo_digest demo_tested
   \<and> mutate (Set_timestamp ''1999-12-31T23:59:59'') (chain demo_tested ! 0) \<noteq> chain demo_tested ! 0
   \<and> is_chain_valid demo_digest (tamper 0 (Set_timestamp ''1999-12-31T23:59:59'') demo_tested)"
proof -
  have v: "is_chain_valid demo_digest demo_tested"
    using reachable_inv[OF demo_tested_reachable]
    by (simp add: is_chain_valid_iff ledger_inv_def chain_hashed_def chain_linked_def
        list_all_length)
  have "mutate (Set_timestamp ''1999-12-31T23:59:59'') (chain demo_tested ! 0)
          \<noteq> chain demo_tested ! 0"
    by (simp add: demo_tested_def demo_genesis_def)
  moreover have
    "is_chain_valid demo_digest (tamper 0 (Set_timestamp ''1999-12-31T23:59:59'') demo_tested)"
  proof -
    from reachable_inv[OF demo_tested_reachable]
    have "hash demo_block = calculate_hash demo_digest demo_block"
      by (simp add: ledger_inv_def chain_hashed_def demo_tested_chain)
    moreover have "previous_hash demo_block = hash demo_genesis"
      by (simp add: demo_block_def demo_genesis_def)
    ultimately show ?thesis
      by (simp add: is_chain_valid_def tamper_def demo_tested_def upt_rec[of 1] Let_def)
  qed
  ultimately show ?thesis using v by blast
qed

text \<open>
  C2, amended. In a ledger whose chain validates, overwriting one field of one block with
  a different value (for the data: with a different dict) makes \<^verbatim>\<open>is_chain_valid\<close>
  return false whenever the block comes after the genesis block, and also when the field
  is the stored hash of the genesis block and a block follows it. For the index, the
  timestamp, the data and the nonce this holds provided the digest does not collide on
  the serialisations of the original and the changed block (the float texts in them being
  well formed): the serialisation itself always differs. Any other field of the genesis
  block, and anything in a chain of one block, can be changed unnoticed.
\<close>

theorem tamper_detected_iff:
  assumes "is_chain_valid H L" and "i < length (chain L)"
    and "changes m (chain L ! i)"
    and "rehashed m \<Longrightarrow>
           wf_json (payload (chain L ! i)) \<and> wf_json (payload (mutate m (chain L ! i)))
           \<and> no_collision H (dumps (payload (chain L ! i)))
                (dumps (payload (mutate m (chain L ! i))))"
  shows "is_chain_valid H (tamper i m L) \<longleftrightarrow> \<not> validator_reads L i m"
proof -
  let ?c = "chain L" and ?b' = "mutate m (chain L ! i)"
  let ?c' = "(chain L)[i := ?b']"
  let ?ok = "\<lambda>c j. hash (c ! j) = calculate_hash H (c ! j)
                 \<and> previous_hash (c ! j) = hash (c ! (j - 1))"
  have valid: "?ok ?c j" if "1 \<le> j" "j < length ?c" for j
    using assms(1) that by (simp add: is_chain_valid_iff)
  have iff: "is_chain_valid H (tamper i m L) \<longleftrightarrow> (\<forall>j. 1 \<le> j \<and> j < length ?c \<longrightarrow> ?ok ?c' j)"
    by (simp add: is_chain_valid_iff tamper_def)
  show ?thesis
  proof (cases "validator_reads L i m")
    case True
    have "\<exists>j. 1 \<le> j \<and> j < length ?c \<and> \<not> ?ok ?c' j"
    proof (cases "1 \<le> i")
      case i1: True
      from valid[OF i1 assms(2)] have vi: "?ok ?c i" .
      have "\<not> ?ok ?c' i"
      proof (cases "rehashed m")
        case True
        with assms(3,4) have "calculate_hash H ?b' \<noteq> calculate_hash H (?c ! i)"
          by (intro rehashed_detected) simp_all
        moreover from True have "hash ?b' = hash (?c ! i)"
          by (cases m) simp_all
        ultimately show ?thesis using vi assms(2) by simp
      next
        case False
        then show ?thesis
        proof (cases m)
          case (Set_hash v)
          with assms(3) have "v \<noteq> hash (?c ! i)" by simp
          with vi Set_hash assms(2) show ?thesis by (simp add: mutate_fields)
        next
          case (Set_previous_hash v)
          with assms(3) have "v \<noteq> previous_hash (?c ! i)" by simp
          with vi Set_previous_hash assms(2) i1 show ?thesis by simp
        qed simp_all
      qed
      with i1 assms(2) show ?thesis by blast
    next
      case i0: False
      then have i: "i = 0" by simp
      with True obtain v where m: "m = Set_hash v" and len: "1 < length ?c"
        by (cases m) simp_all
      from assms(3) m have "v \<noteq> hash (?c ! 0)" unfolding i by simp
      moreover from valid[of 1] len have "previous_hash (?c ! 1) = hash (?c ! 0)" by simp
      moreover from len have "0 < length ?c" by (cases "chain L") simp_all
      ultimately have "\<not> ?ok ?c' 1" using m len i by simp
      with len show ?thesis by (intro exI[of _ 1]) simp
    qed
    with True iff show ?thesis by blast
  next
    case False
    then have i: "i = 0" by (cases m) simp_all
    have h: "hash ?b' = hash (?c ! i) \<or> length ?c = 1"
    proof (cases m)
      case (Set_hash v)
      with False i have "\<not> 1 < length ?c" by simp
      with assms(2) have "length ?c = 1" by (cases "chain L") simp_all
      then show ?thesis ..
    qed simp_all
    have "?ok ?c' j" if j: "1 \<le> j" "j < length ?c" for j
    proof -
      from valid[OF j] have vj: "?ok ?c j" .
      from j i have ne: "j \<noteq> i" by simp
      show ?thesis
      proof (cases "j - 1 = i")
        case True
        with h j i have "hash ?b' = hash (?c ! i)" by auto
        with True ne vj j assms(2) show ?thesis by simp
      next
        case False
        with ne vj show ?thesis by simp
      qed
    qed
    with False iff show ?thesis by blast
  qed
qed

theorem tamper_detected_iff_witness:
  "is_chain_valid demo_digest demo_tested \<and> 1 < length (chain demo_tested)
   \<and> changes (Set_data [(''transactions'', JList [JObj demo_collection])]) (chain demo_tested ! 1)
   \<and> wf_json (payload (chain demo_tested ! 1))
   \<and> wf_json (payload (mutate (Set_data [(''transactions'', JList [JObj demo_collection])])
                          (chain demo_tested ! 1)))
   \<and> no_collision demo_digest (dumps (payload (chain demo_tested ! 1)))
        (dumps (payload (mutate (Set_data [(''transactions'', JList [JObj demo_collection])])
                           (chain demo_tested ! 1))))
   \<and> validator_reads demo_tested 1 (Set_data [(''transactions'', JList [JObj demo_collection])])
   \<and> \<not> is_chain_valid demo_digest
         (tamper 1 (Set_data [(''transactions'', JList [JObj demo_collection])]) demo_tested)"
proof -
  let ?m = "Set_data [(''transactions'', JList [JObj demo_collection])]"
  have v: "is_chain_valid demo_digest demo_tested"
    using reachable_inv[OF demo_tested_reachable]
    by (simp add: is_chain_valid_iff ledger_inv_def chain_hashed_def chain_linked_def
        list_all_length)
  have l: "1 < length (chain demo_tested)"
    by (simp add: demo_tested_chain)
  have c: "changes ?m (chain demo_tested ! 1)"
    by (simp add: demo_tested_chain demo_block_def)
  have w: "wf_json (payload (chain demo_tested ! 1))"
    "wf_json (payload (mutate ?m (chain demo_tested ! 1)))"
    by (simp_all add: demo_tested_chain payload_def demo_block_def demo_collection_def
        demo_testing_def demo_test_results_def)
  have n: "no_collision demo_digest (dumps (payload (chain demo_tested ! 1)))
        (dumps (payload (mutate ?m (chain demo_tested ! 1))))"
    by (simp add: no_collision_def demo_tested_chain payload_def demo_eval)
  have r: "validator_reads demo_tested 1 ?m"
    by simp
  from tamper_detected_iff[OF v l c] w n r
  have "\<not> is_chain_valid demo_digest (tamper 1 ?m demo_tested)"
    by blast
  with v l c w n r show ?thesis by blast
qed

end
